theory Spec2Isabelle
  imports Complex_Main "HOL-Library.Sublist"
begin

section \<open>Overview\<close>

text \<open>
  The repository holds five checks of a working tree, each a Node.js script of its own: a
  detector of sensitive files, an enforcer of file sizes, a fixer of trailing white space and
  final newlines, a validator of the YAML frontmatter of the markdown files in three metadata
  directories, and a validator of the consistency of the names they declare.

  A script is modelled as a function on the state of its run: what it reads of the tree and
  of the disk goes in, and the counter, the lines of the console and the disk it leaves come
  out. An exception no \<open>try\<close> catches ends the run and is the flag \<open>aborted\<close>. The wording
  of the console lines and the exit status (1 when the counter is positive) are left out.
\<close>

section \<open>JavaScript strings and paths\<close>

text \<open>
  The scripts are Node.js programs. A JavaScript string is modelled as a \<^typ>\<open>string\<close>:
  one \<^typ>\<open>char\<close> per code unit, for the code units below 256. The sets of white space and of
  line terminators of ECMAScript are therefore the ones of that range.
\<close>

abbreviation LF :: char where "LF \<equiv> CHR 0x0A"
abbreviation CR :: char where "CR \<equiv> CHR 0x0D"

definition is_line_terminator :: "char \<Rightarrow> bool" where
  \<comment> \<open>ECMAScript LineTerminator\<close>
  "is_line_terminator c = (c = LF \<or> c = CR)"

definition is_white_space :: "char \<Rightarrow> bool" where
  \<comment> \<open>what \<open>trim\<close>, \<open>trimRight\<close> and the regular expression class \<open>\s\<close> strip or match:
      ECMAScript WhiteSpace and LineTerminator (TAB, LF, VT, FF, CR, SP, NBSP)\<close>
  "is_white_space c = (c \<in> set [CHR 0x09, LF, CHR 0x0B, CHR 0x0C, CR, CHR 0x20, CHR 0xA0])"

definition toLowerCase_char :: "char \<Rightarrow> char" where
  "toLowerCase_char c =
     (let n = (of_char c :: nat)
      in if (65 \<le> n \<and> n \<le> 90) \<or> (192 \<le> n \<and> n \<le> 222 \<and> n \<noteq> 215)
         then char_of (n + 32) else c)"

definition toLowerCase :: "string \<Rightarrow> string" where
  "toLowerCase s = map toLowerCase_char s"

text \<open>
  A path is the list of the names from the scan root (\<open>process.cwd()\<close>) down to the file.
  \<open>path.relative(cwd, path.join(cwd, a, b, c))\<close> is \<open>a/b/c\<close> and \<open>path.basename\<close> of it
  is \<open>c\<close>.
\<close>

type_synonym path = "string list"

fun relative :: "path \<Rightarrow> string" where
  "relative [] = []"
| "relative [n] = n"
| "relative (n # ns) = n @ ''/'' @ relative ns"

definition basename :: "path \<Rightarrow> string" where
  "basename p = (if p = [] then [] else last p)"

fun last_dot :: "string \<Rightarrow> nat option" where
  \<comment> \<open>the index of the last \<open>.\<close> of a name\<close>
  "last_dot [] = None"
| "last_dot (c # cs) =
     (case last_dot cs of
        Some i \<Rightarrow> Some (Suc i)
      | None \<Rightarrow> if c = CHR ''.'' then Some 0 else None)"

definition extname :: "string \<Rightarrow> string" where
  \<comment> \<open>Node's \<open>path.extname\<close> on a file name without separator: from the last dot to the end;
      empty when there is no dot, when the only dot is the first character, and for \<open>..\<close>\<close>
  "extname name =
     (case last_dot name of
        None \<Rightarrow> []
      | Some i \<Rightarrow> if i = 0 \<or> name = ''..'' then [] else drop i name)"

definition startsWith :: "string \<Rightarrow> string \<Rightarrow> bool" where
  "startsWith s t = prefix t s"

definition endsWith :: "string \<Rightarrow> string \<Rightarrow> bool" where
  "endsWith s t = suffix t s"

definition includes_str :: "string \<Rightarrow> string \<Rightarrow> bool" where
  "includes_str s t = sublist t s"

fun index_of :: "string \<Rightarrow> string \<Rightarrow> nat option" where
  \<comment> \<open>the first position at which \<open>t\<close> occurs in \<open>s\<close>\<close>
  "index_of [] t = (if t = [] then Some 0 else None)"
| "index_of (c # cs) t =
     (if prefix t (c # cs) then Some 0 else map_option Suc (index_of cs t))"

definition indexOf :: "string \<Rightarrow> string \<Rightarrow> nat \<Rightarrow> nat option" where
  \<comment> \<open>\<open>s.indexOf(t, position)\<close>; \<open>None\<close> is the result \<open>-1\<close>\<close>
  "indexOf s t position =
     map_option (\<lambda>k. k + min position (length s)) (index_of (drop position s) t)"

definition substring :: "string \<Rightarrow> nat \<Rightarrow> nat \<Rightarrow> string" where
  \<comment> \<open>\<open>s.substring(a, b)\<close>: both ends clamped to the length, and swapped when \<open>a > b\<close>\<close>
  "substring s a b =
     (let a' = min a (length s); b' = min b (length s)
      in take (max a' b' - min a' b') (drop (min a' b') s))"

fun split_LF :: "string \<Rightarrow> string list" where
  \<comment> \<open>\<open>s.split('\n')\<close>\<close>
  "split_LF [] = [[]]"
| "split_LF (c # cs) =
     (if c = LF then [] # split_LF cs
      else (c # hd (split_LF cs)) # tl (split_LF cs))"

fun join_LF :: "string list \<Rightarrow> string" where
  \<comment> \<open>\<open>lines.join('\n')\<close>\<close>
  "join_LF [] = []"
| "join_LF [l] = l"
| "join_LF (l # ls) = l @ LF # join_LF ls"

definition trimRight :: "string \<Rightarrow> string" where
  "trimRight s = rev (dropWhile is_white_space (rev s))"

definition trim :: "string \<Rightarrow> string" where
  "trim s = dropWhile is_white_space (trimRight s)"

section \<open>The file tree and the walker\<close>

text \<open>
  What \<open>readdirSync\<close> and \<open>statSync\<close> show of the working tree: a file with its size in bytes,
  a directory with its entries, a directory whose listing throws (\<open>NoList\<close>) and an entry on
  which \<open>statSync\<close> throws (\<open>Broken\<close>). What \<open>readFileSync\<close> returns is kept apart, in the
  \<open>disk\<close> of a run.
\<close>

datatype entry =
    File string nat
  | Dir string "entry list"
  | NoList string
  | Broken string

text \<open>
  \<open>walkDir\<close> of the three tree scripts, which differ in the excluded names and in the filter
  before the callback. The result lists the callback's invocations in order, with the size
  \<open>statSync\<close> gave, and tells whether the walk came to its end (\<open>False\<close>: an exception of
  \<open>statSync\<close> or \<open>readdirSync\<close> left it, after the invocations listed).
\<close>

fun walkDir :: "string list \<Rightarrow> (string \<Rightarrow> bool) \<Rightarrow> path \<Rightarrow> entry list \<Rightarrow> (path \<times> nat) list \<times> bool" where
  "walkDir excl keep dir [] = ([], True)"
| "walkDir excl keep dir (File name sz # rest) =
     (let (vs, ok) = walkDir excl keep dir rest
      in ((if keep name then [(dir @ [name], sz)] else []) @ vs, ok))"
| "walkDir excl keep dir (Dir name sub # rest) =
     (if name \<in> set excl then walkDir excl keep dir rest
      else (let (vs, ok) = walkDir excl keep (dir @ [name]) sub
            in if ok then (let (vs', ok') = walkDir excl keep dir rest in (vs @ vs', ok'))
               else (vs, False)))"
| "walkDir excl keep dir (NoList name # rest) =
     (if name \<in> set excl then walkDir excl keep dir rest else ([], False))"
| "walkDir excl keep dir (Broken name # rest) = ([], False)"

section \<open>Regular expressions\<close>

text \<open>
  The regular expressions of the scripts use literals, classes, \<open>.\<close>, \<open>?\<close>, \<open>*\<close>, the anchors
  \<open>^\<close> and \<open>$\<close> at the two ends, and the flag \<open>i\<close>. They are written as terms of \<open>rx\<close> and
  matched by derivatives; none has the flags \<open>g\<close>, \<open>y\<close> or \<open>m\<close>, so \<open>test\<close> has no state and
  the anchors are the two ends of the string.
\<close>

datatype rx =
    Void
  | Eps
  | Sym "char \<Rightarrow> bool"
  | Seq rx rx
  | Alt rx rx
  | Star rx

fun nullable :: "rx \<Rightarrow> bool" where
  "nullable Void = False"
| "nullable Eps = True"
| "nullable (Sym p) = False"
| "nullable (Seq r s) = (nullable r \<and> nullable s)"
| "nullable (Alt r s) = (nullable r \<or> nullable s)"
| "nullable (Star r) = True"

fun seq :: "rx \<Rightarrow> rx \<Rightarrow> rx" where
  "seq Void s = Void"
| "seq Eps s = s"
| "seq r s = Seq r s"

fun alt :: "rx \<Rightarrow> rx \<Rightarrow> rx" where
  "alt Void s = s"
| "alt r Void = r"
| "alt r s = Alt r s"

fun deriv :: "char \<Rightarrow> rx \<Rightarrow> rx" where
  "deriv c Void = Void"
| "deriv c Eps = Void"
| "deriv c (Sym p) = (if p c then Eps else Void)"
| "deriv c (Seq r s) =
     (if nullable r then alt (seq (deriv c r) s) (deriv c s) else seq (deriv c r) s)"
| "deriv c (Alt r s) = alt (deriv c r) (deriv c s)"
| "deriv c (Star r) = seq (deriv c r) (Star r)"

fun rx_match :: "rx \<Rightarrow> string \<Rightarrow> bool" where
  "rx_match r [] = nullable r"
| "rx_match r (c # cs) = rx_match (deriv c r) cs"

record RegExp =
  from_start :: bool  \<comment> \<open>the pattern begins with \<open>^\<close>\<close>
  body :: rx
  to_end :: bool  \<comment> \<open>the pattern ends with \<open>$\<close>\<close>

definition anything :: rx where
  "anything = Star (Sym (\<lambda>c. True))"

definition test :: "RegExp \<Rightarrow> string \<Rightarrow> bool" where
  \<comment> \<open>\<open>pattern.test(s)\<close>: the body matches somewhere in \<open>s\<close>, at the anchored ends where
      there are anchors\<close>
  "test re s =
     rx_match (Seq (if from_start re then Eps else anything)
                (Seq (body re) (if to_end re then Eps else anything))) s"

definition canonicalize :: "char \<Rightarrow> char" where
  \<comment> \<open>the case folding of the flag \<open>i\<close>: the upper-case letter of a lower-case one\<close>
  "canonicalize c =
     (let n = (of_char c :: nat)
      in if (97 \<le> n \<and> n \<le> 122) \<or> (224 \<le> n \<and> n \<le> 254 \<and> n \<noteq> 247)
         then char_of (n - 32) else c)"

fun lit :: "string \<Rightarrow> rx" where
  "lit [] = Eps"
| "lit (c # cs) = Seq (Sym (\<lambda>x. x = c)) (lit cs)"

fun lit_i :: "string \<Rightarrow> rx" where
  \<comment> \<open>a literal under the flag \<open>i\<close>\<close>
  "lit_i [] = Eps"
| "lit_i (c # cs) = Seq (Sym (\<lambda>x. canonicalize x = canonicalize c)) (lit_i cs)"

definition dot :: rx where
  "dot = Sym (\<lambda>c. \<not> is_line_terminator c)"

definition one_of :: "string \<Rightarrow> rx" where
  "one_of cs = Sym (\<lambda>c. c \<in> set cs)"

definition opt :: "rx \<Rightarrow> rx" where
  "opt r = Alt r Eps"

definition spaces :: rx where
  \<comment> \<open>\<open>\s*\<close>\<close>
  "spaces = Star (Sym is_white_space)"

section \<open>JavaScript values\<close>

text \<open>
  What \<open>yaml.parse\<close> returns. The library is not part of the repository: the parser is a
  parameter of the two frontmatter scripts, a function from the text between the delimiters
  to the parsed value or to the message of the error it throws. A number is a rational,
  \<open>NaN\<close> or an infinity (\<open>JInf True\<close> is the positive one).
\<close>

datatype jsval =
    JUndefined
  | JNull
  | JBool bool
  | JNum rat
  | JNaN
  | JInf bool
  | JStr string
  | JArr "jsval list"
  | JObj "(string \<times> jsval) list"

type_synonym yaml_parse = "string \<Rightarrow> string + jsval"

fun truthy :: "jsval \<Rightarrow> bool" where
  \<comment> \<open>\<open>!v\<close> is the negation of it\<close>
  "truthy JUndefined = False"
| "truthy JNull = False"
| "truthy (JBool b) = b"
| "truthy (JNum r) = (r \<noteq> 0)"
| "truthy JNaN = False"
| "truthy (JInf b) = True"
| "truthy (JStr s) = (s \<noteq> [])"
| "truthy (JArr vs) = True"
| "truthy (JObj kvs) = True"

fun get :: "jsval \<Rightarrow> string \<Rightarrow> string + jsval" where
  \<comment> \<open>\<open>v[key]\<close> for the keys the scripts read (\<open>name\<close>, \<open>description\<close>, \<open>model\<close>,
      \<open>location\<close>): a TypeError on \<open>null\<close> and \<open>undefined\<close>, the entry of a mapping,
      \<open>undefined\<close> otherwise\<close>
  "get JUndefined key = Inl ''Cannot read properties of undefined''"
| "get JNull key = Inl ''Cannot read properties of null''"
| "get (JObj kvs) key = Inr (case map_of kvs key of Some v \<Rightarrow> v | None \<Rightarrow> JUndefined)"
| "get v key = Inr JUndefined"

fun is_string :: "jsval \<Rightarrow> bool" where
  \<comment> \<open>\<open>typeof v === 'string'\<close>\<close>
  "is_string (JStr s) = True"
| "is_string v = False"

fun is_blank :: "jsval \<Rightarrow> bool" where
  \<comment> \<open>\<open>v.trim() === ''\<close> of a string\<close>
  "is_blank (JStr s) = (trim s = [])"
| "is_blank v = False"

fun is_object :: "jsval \<Rightarrow> bool" where
  "is_object (JArr vs) = True"
| "is_object (JObj kvs) = True"
| "is_object v = False"

definition Set_has :: "jsval list \<Rightarrow> jsval \<Rightarrow> bool" where
  \<comment> \<open>\<open>allNames.has(v)\<close>: primitive values are compared by value, \<open>NaN\<close> equal to itself;
      an array or mapping is compared by identity, and the one a call of \<open>yaml.parse\<close>
      has just made is not in the set\<close>
  "Set_has names v = (\<not> is_object v \<and> v \<in> set names)"

section \<open>The state of a run\<close>

record 'm run =
  disk :: "path \<rightharpoonup> string"
    \<comment> \<open>what \<open>readFileSync(p, 'utf-8')\<close> returns; \<open>None\<close> where it throws\<close>
  read_only :: "path set"
    \<comment> \<open>the files on which \<open>writeFileSync\<close> throws\<close>
  counter :: nat
    \<comment> \<open>the script's counter: \<open>blockedCount\<close>, \<open>errorCount\<close> or \<open>filesFixed\<close>\<close>
  fileCount :: nat
    \<comment> \<open>the second counter of the frontmatter validator\<close>
  allNames :: "jsval list"
    \<comment> \<open>the set of names of the consistency validator, in the order of insertion\<close>
  console :: "'m list"
    \<comment> \<open>the lines of \<open>console.log\<close>, \<open>console.error\<close> and \<open>console.warn\<close>, in order\<close>
  aborted :: bool
    \<comment> \<open>an uncaught exception ended the process\<close>

definition fresh_run :: "'m run" where
  \<comment> \<open>the state a script starts in, on a disk without readable files\<close>
  "fresh_run = \<lparr>disk = Map.empty, read_only = {}, counter = 0, fileCount = 0,
                 allNames = [], console = [], aborted = False\<rparr>"

section \<open>The sensitive-file detector\<close>

datatype pattern =
    Rx RegExp
  | Str string

definition env_file :: RegExp where
  \<comment> \<open>\<open>/^\.env(\..*)?$/\<close>\<close>
  "env_file = \<lparr>from_start = True,
                body = Seq (lit ''.env'') (opt (Seq (lit ''.'') (Star dot))),
                to_end = True\<rparr>"

definition BLOCKED_PATTERNS :: "pattern list" where
  "BLOCKED_PATTERNS =
     [Rx env_file,
      Rx \<lparr>from_start = True, body = lit ''.env.local'', to_end = True\<rparr>,
      Rx \<lparr>from_start = True, body = Seq (lit ''.env.'') (Seq (Star dot) (lit ''.local'')),
          to_end = True\<rparr>,
      Rx \<lparr>from_start = False, body = lit ''.key'', to_end = True\<rparr>,
      Rx \<lparr>from_start = False, body = lit ''.pem'', to_end = True\<rparr>,
      Rx \<lparr>from_start = False, body = Seq (lit_i ''private'') (Seq (one_of ''-_'') (lit_i ''key'')),
          to_end = False\<rparr>,
      Rx \<lparr>from_start = False, body = Seq (lit_i ''secret'') (Seq (one_of ''-_'') (lit_i ''key'')),
          to_end = False\<rparr>,
      Rx \<lparr>from_start = False, body = lit_i ''credentials'', to_end = False\<rparr>,
      Rx \<lparr>from_start = False, body = Seq (lit_i ''oauth'') (Seq (one_of ''-_'') (lit_i ''token'')),
          to_end = False\<rparr>,
      Rx \<lparr>from_start = False, body = Seq (lit_i ''api'') (Seq (one_of ''-_'') (lit_i ''key'')),
          to_end = False\<rparr>,
      Rx \<lparr>from_start = False, body = Seq (lit_i ''auth'') (Seq (one_of ''-_'') (lit_i ''token'')),
          to_end = False\<rparr>,
      Rx \<lparr>from_start = False, body = lit ''.vscode/settings.json'', to_end = True\<rparr>,
      Rx \<lparr>from_start = False, body = Seq (lit ''.idea/'') (Seq (Star dot) (lit ''.xml'')),
          to_end = True\<rparr>,
      Rx \<lparr>from_start = False, body = Seq (lit ''.idea/'') (Seq (Star dot) (lit ''.yml'')),
          to_end = True\<rparr>]"

definition EXCLUDED_DIRS :: "string list" where
  "EXCLUDED_DIRS = [''node_modules'', ''.git'', ''dist'', ''build'', ''.next'']"

definition suspiciousPatterns :: "RegExp list" where
  "suspiciousPatterns =
     [\<lparr>from_start = False,
       body = Seq (lit_i ''api'') (Seq (opt (one_of ''_-'')) (Seq (lit_i ''key'')
                (Seq spaces (one_of '':='')))),
       to_end = False\<rparr>,
      \<lparr>from_start = False, body = Seq (lit_i ''secret'') (Seq spaces (one_of '':='')),
       to_end = False\<rparr>,
      \<lparr>from_start = False, body = Seq (lit_i ''password'') (Seq spaces (one_of '':='')),
       to_end = False\<rparr>,
      \<lparr>from_start = False, body = Seq (lit_i ''token'') (Seq spaces (one_of '':='')),
       to_end = False\<rparr>,
      \<lparr>from_start = False,
       body = Seq (lit_i ''private'') (Seq (opt (one_of ''_-'')) (Seq (lit_i ''key'')
                (Seq spaces (one_of '':='')))),
       to_end = False\<rparr>]"

datatype blocked_msg =
    Blocked string  \<comment> \<open>the line \<open>BLOCKED: relativePath\<close>\<close>
  | AddToGitignore  \<comment> \<open>the line after it\<close>
  | ContainsCredentials

definition isBlocked :: "string \<Rightarrow> string \<Rightarrow> bool" where
  "isBlocked fileName relativePath =
     list_ex (\<lambda>pattern. case pattern of
                  Rx re \<Rightarrow> test re fileName \<or> test re relativePath
                | Str t \<Rightarrow> includes_str relativePath t)
       BLOCKED_PATTERNS"

definition blocked_callback :: "path \<Rightarrow> blocked_msg run \<Rightarrow> blocked_msg run" where
  "blocked_callback filePath st =
     (let relativePath = relative filePath;
          fileName = basename filePath
      in if isBlocked fileName relativePath
         then (let st' = st\<lparr>console := console st @ [Blocked relativePath, AddToGitignore],
                            counter := counter st + 1\<rparr>
               in case disk st filePath of
                    None \<Rightarrow> st'
                  | Some content \<Rightarrow>
                      if list_ex (\<lambda>p. test p content) suspiciousPatterns
                      then st'\<lparr>console := console st' @ [ContainsCredentials]\<rparr>
                      else st')
         else st)"

definition check_blocked_files :: "entry list \<Rightarrow> blocked_msg run \<Rightarrow> blocked_msg run" where
  "check_blocked_files tree st =
     (let (visits, ok) = walkDir EXCLUDED_DIRS (\<lambda>_. True) [] tree
      in (fold (\<lambda>(p, sz). blocked_callback p) visits st)\<lparr>aborted := \<not> ok\<rparr>)"

section \<open>The size-limit enforcer\<close>

definition SIZE_LIMITS_default :: nat where "SIZE_LIMITS_default = 1024 * 1024"
definition SIZE_LIMITS_images :: nat where "SIZE_LIMITS_images = 500 * 1024"
definition SIZE_LIMITS_videos :: nat where "SIZE_LIMITS_videos = 0"

definition IMAGE_EXTS :: "string list" where
  "IMAGE_EXTS = [''.png'', ''.jpg'', ''.jpeg'', ''.gif'', ''.svg'', ''.webp'']"

definition VIDEO_EXTS :: "string list" where
  "VIDEO_EXTS = [''.mp4'', ''.mov'', ''.avi'', ''.mkv'', ''.webm'']"

definition EXCLUDED_DIRS_size :: "string list" where
  "EXCLUDED_DIRS_size = [''node_modules'', ''.git'', ''dist'', ''build'', ''.next'', ''.cache'']"

text \<open>
  The two error lines of the script. The second carries the size and the limit in bytes; their
  rendering in MiB (\<open>toFixed(2)\<close>) is not modelled.
\<close>

datatype size_msg =
    VideoNotAllowed string
  | ExceedsLimit string nat nat

definition size_callback :: "path \<Rightarrow> nat \<Rightarrow> size_msg run \<Rightarrow> size_msg run" where
  "size_callback filePath sz st =
     (let ext = toLowerCase (extname (basename filePath));
          relativePath = relative filePath
      in if ext \<in> set VIDEO_EXTS
         then st\<lparr>console := console st @ [VideoNotAllowed relativePath],
                 counter := counter st + 1\<rparr>
         else (let limit = (if ext \<in> set IMAGE_EXTS then SIZE_LIMITS_images
                            else SIZE_LIMITS_default)
               in if sz > limit
                  then st\<lparr>console := console st @ [ExceedsLimit relativePath sz limit],
                          counter := counter st + 1\<rparr>
                  else st))"

definition check_file_sizes :: "entry list \<Rightarrow> size_msg run \<Rightarrow> size_msg run" where
  "check_file_sizes tree st =
     (let (visits, ok) = walkDir EXCLUDED_DIRS_size (\<lambda>_. True) [] tree
      in (fold (\<lambda>(p, sz). size_callback p sz) visits st)\<lparr>aborted := \<not> ok\<rparr>)"

section \<open>The whitespace and newline fixer\<close>

definition PATTERNS_exclude :: "string list" where
  "PATTERNS_exclude = [''node_modules'', ''.git'', ''dist'', ''build'', ''.next'']"

definition fix_included :: "string \<Rightarrow> bool" where
  \<comment> \<open>the filter of this script's \<open>walkDir\<close> before the callback\<close>
  "fix_included file =
     (let ext = extname file;
          isMarkdown = (ext = ''.md'');
          isYaml = (ext \<in> set [''.yml'', ''.yaml'']);
          isCode = (ext \<in> set [''.js'', ''.json'', ''.ts'', ''.tsx'', ''.jsx''])
      in isCode \<or> isMarkdown \<or> isYaml)"

definition fix_content :: "string \<Rightarrow> string \<times> bool" where
  \<comment> \<open>the body of the callback between the read and the write: \<open>output\<close> and \<open>modified\<close>\<close>
  "fix_content content =
     (let lines = split_LF content;
          fixedLines = map trimRight lines;
          modified = (\<exists>line \<in> set lines. trimRight line \<noteq> line);
          output = join_LF fixedLines
      in if length output > 0 \<and> \<not> endsWith output [LF]
         then (output @ [LF], True)
         else (output, modified))"

datatype fix_msg =
    Fixed string
  | CouldNotProcess string

definition fix_callback :: "path \<Rightarrow> fix_msg run \<Rightarrow> fix_msg run" where
  "fix_callback filePath st =
     (case disk st filePath of
        None \<Rightarrow> st\<lparr>console := console st @ [CouldNotProcess (relative filePath)]\<rparr>
      | Some content \<Rightarrow>
          (let (output, modified) = fix_content content
           in if modified
              then (if filePath \<in> read_only st
                    then st\<lparr>console := console st @ [CouldNotProcess (relative filePath)]\<rparr>
                    else st\<lparr>disk := (disk st)(filePath \<mapsto> output),
                            console := console st @ [Fixed (relative filePath)],
                            counter := counter st + 1\<rparr>)
              else st))"

definition fix_common_issues :: "entry list \<Rightarrow> fix_msg run \<Rightarrow> fix_msg run" where
  "fix_common_issues tree st =
     (let (visits, ok) = walkDir PATTERNS_exclude fix_included [] tree
      in (fold (\<lambda>(p, sz). fix_callback p) visits st)\<lparr>aborted := \<not> ok\<rparr>)"

section \<open>The frontmatter validator and the consistency validator\<close>

text \<open>
  Both scripts scan the markdown files directly inside \<open>agents\<close>, \<open>skills\<close> and \<open>commands\<close>.
  A \<open>listing\<close> tells of each of the three names what \<open>existsSync\<close> and \<open>readdirSync\<close> show:
  nothing of that name exists (\<open>Absent\<close>); a directory with the names \<open>readdirSync\<close> returns
  (\<open>Listed\<close>); something of that name exists and \<open>readdirSync\<close> throws on it, a regular file or
  a directory without permission (\<open>Unlistable\<close>). The exception is not caught: it ends the run
  after the files of the directories before, and the directories after are not scanned. Both
  scripts begin a file with the same two tests on its content.
\<close>

datatype dir_listing =
    Absent
  | Listed "string list"
  | Unlistable

type_synonym listing = "string \<Rightarrow> dir_listing"

fun scan_dirs :: "listing \<Rightarrow> string list \<Rightarrow> path list \<times> bool" where
  \<comment> \<open>the outer \<open>forEach\<close> over \<open>dirsToCheck\<close>: the files it reaches, in order, and whether
      every \<open>readdirSync\<close> returned\<close>
  "scan_dirs listing [] = ([], True)"
| "scan_dirs listing (dir # dirs) =
     (case listing dir of
        Absent \<Rightarrow> scan_dirs listing dirs
      | Unlistable \<Rightarrow> ([], False)
      | Listed names \<Rightarrow>
          (let (files, ok) = scan_dirs listing dirs
           in (map (\<lambda>f. [dir, f]) (filter (\<lambda>f. endsWith f ''.md'') names) @ files, ok)))"

definition md_files :: "listing \<Rightarrow> path list \<times> bool" where
  "md_files listing = scan_dirs listing [''agents'', ''skills'', ''commands'']"

datatype delimiter_error = NoStart | NoEnd

definition frontmatterStr :: "string \<Rightarrow> delimiter_error + string" where
  "frontmatterStr content =
     (if \<not> startsWith content ''---'' then Inl NoStart
      else case indexOf content (LF # ''---'' @ [LF]) 4 of
             None \<Rightarrow> Inl NoEnd
           | Some endDelimiter \<Rightarrow> Inr (substring content 4 endDelimiter))"

fun missing_of :: "jsval \<Rightarrow> string list \<Rightarrow> string + string list" where
  \<comment> \<open>\<open>required.filter(field => !frontmatter[field])\<close>\<close>
  "missing_of frontmatter [] = Inr []"
| "missing_of frontmatter (field # rest) =
     (case get frontmatter field of
        Inl message \<Rightarrow> Inl message
      | Inr v \<Rightarrow>
          (case missing_of frontmatter rest of
             Inl message \<Rightarrow> Inl message
           | Inr missing \<Rightarrow> Inr (if truthy v then missing else field # missing)))"

definition field_of :: "jsval \<Rightarrow> string \<Rightarrow> jsval" where
  \<comment> \<open>a property read where the value is known not to be \<open>null\<close> or \<open>undefined\<close>\<close>
  "field_of v key = (case get v key of Inl message \<Rightarrow> JUndefined | Inr x \<Rightarrow> x)"

datatype validate_msg =
    MissingFrontmatterStart string
  | MissingFrontmatterEnd string
  | MissingRequiredFields string "string list"
  | NameNotNonEmptyString string
  | DescriptionNotNonEmptyString string
  | InvalidYAML string string
  | FrontmatterValid string

definition validate_file :: "yaml_parse \<Rightarrow> path \<Rightarrow> string \<Rightarrow> validate_msg run \<Rightarrow> validate_msg run" where
  "validate_file parse filePath content st0 =
     (let st = st0\<lparr>fileCount := fileCount st0 + 1\<rparr>;
          relativePath = relative filePath;
          error = (\<lambda>m. st\<lparr>console := console st @ [m], counter := counter st + 1\<rparr>)
      in case frontmatterStr content of
           Inl NoStart \<Rightarrow> error (MissingFrontmatterStart relativePath)
         | Inl NoEnd \<Rightarrow> error (MissingFrontmatterEnd relativePath)
         | Inr str \<Rightarrow>
            (case parse str of
               Inl message \<Rightarrow> error (InvalidYAML relativePath message)
             | Inr frontmatter \<Rightarrow>
                (case missing_of frontmatter [''name'', ''description''] of
                   Inl message \<Rightarrow> error (InvalidYAML relativePath message)
                 | Inr missing \<Rightarrow>
                     if length missing > 0
                     then error (MissingRequiredFields relativePath missing)
                     else if \<not> is_string (field_of frontmatter ''name'')
                             \<or> is_blank (field_of frontmatter ''name'')
                     then error (NameNotNonEmptyString relativePath)
                     else if \<not> is_string (field_of frontmatter ''description'')
                             \<or> is_blank (field_of frontmatter ''description'')
                     then error (DescriptionNotNonEmptyString relativePath)
                     else st\<lparr>console := console st @ [FrontmatterValid relativePath]\<rparr>)))"

fun validate_files :: "yaml_parse \<Rightarrow> path list \<Rightarrow> validate_msg run \<Rightarrow> validate_msg run" where
  \<comment> \<open>\<open>readFileSync\<close> stands outside the \<open>try\<close>: a file that cannot be read ends the run\<close>
  "validate_files parse [] st = st"
| "validate_files parse (filePath # rest) st =
     (case disk st filePath of
        None \<Rightarrow> st\<lparr>fileCount := fileCount st + 1, aborted := True\<rparr>
      | Some content \<Rightarrow> validate_files parse rest (validate_file parse filePath content st))"

definition validate_frontmatter :: "yaml_parse \<Rightarrow> listing \<Rightarrow> validate_msg run \<Rightarrow> validate_msg run" where
  "validate_frontmatter parse listing st =
     (let (files, ok) = md_files listing;
          st' = validate_files parse files st
      in st'\<lparr>aborted := aborted st' \<or> \<not> ok\<rparr>)"

datatype verify_msg =
    MissingFrontmatter string
  | InvalidFrontmatter string
  | MissingNameField string
  | DuplicateName string jsval
  | MissingFields string "string list"
  | ModelRecommended string
  | LocationRecommended string
  | VerifyError string string
  | Consistent string

definition verify_file :: "yaml_parse \<Rightarrow> path \<Rightarrow> string \<Rightarrow> verify_msg run \<Rightarrow> verify_msg run" where
  "verify_file parse filePath content st =
     (let relativePath = relative filePath;
          dir = hd filePath;
          error = (\<lambda>s m. s\<lparr>console := console s @ [m], counter := counter s + 1\<rparr>)
      in case frontmatterStr content of
           Inl NoStart \<Rightarrow> error st (MissingFrontmatter relativePath)
         | Inl NoEnd \<Rightarrow> error st (InvalidFrontmatter relativePath)
         | Inr str \<Rightarrow>
            (case parse str of
               Inl message \<Rightarrow> error st (VerifyError relativePath message)
             | Inr frontmatter \<Rightarrow>
                (case get frontmatter ''name'' of
                   Inl message \<Rightarrow> error st (VerifyError relativePath message)
                 | Inr name \<Rightarrow>
                     if \<not> truthy name then error st (MissingNameField relativePath)
                     else if Set_has (allNames st) name
                     then error st (DuplicateName relativePath name)
                     else
                       (let st1 = st\<lparr>allNames := allNames st @ [name]\<rparr>;
                            missing = filter (\<lambda>field. \<not> truthy (field_of frontmatter field))
                                        [''name'', ''description'']
                        in if length missing > 0
                           then error st1 (MissingFields relativePath missing)
                           else
                             (let st2 = (if dir = ''agents'' \<and> \<not> truthy (field_of frontmatter ''model'')
                                         then st1\<lparr>console := console st1 @ [ModelRecommended relativePath]\<rparr>
                                         else st1);
                                  st3 = (if dir = ''skills'' \<and> \<not> truthy (field_of frontmatter ''location'')
                                         then st2\<lparr>console := console st2 @ [LocationRecommended relativePath]\<rparr>
                                         else st2)
                              in st3\<lparr>console := console st3 @ [Consistent relativePath]\<rparr>)))))"

fun verify_files :: "yaml_parse \<Rightarrow> path list \<Rightarrow> verify_msg run \<Rightarrow> verify_msg run" where
  "verify_files parse [] st = st"
| "verify_files parse (filePath # rest) st =
     (case disk st filePath of
        None \<Rightarrow> st\<lparr>aborted := True\<rparr>
      | Some content \<Rightarrow> verify_files parse rest (verify_file parse filePath content st))"

definition verify_agent_consistency :: "yaml_parse \<Rightarrow> listing \<Rightarrow> verify_msg run \<Rightarrow> verify_msg run" where
  "verify_agent_consistency parse listing st =
     (let (files, ok) = md_files listing;
          st' = verify_files parse files st
      in st'\<lparr>aborted := aborted st' \<or> \<not> ok\<rparr>)"

section \<open>Notions used in the statements\<close>

definition rejoined :: "string \<Rightarrow> string" where
  \<comment> \<open>the fixer's \<open>output\<close> before the test for the final newline\<close>
  "rejoined content = join_LF (map trimRight (split_LF content))"

definition settled :: "fix_msg run \<Rightarrow> path \<Rightarrow> bool" where
  \<comment> \<open>the fixer's callback has nothing it can write at this path\<close>
  "settled st p =
     (case disk st p of
        None \<Rightarrow> True
      | Some content \<Rightarrow> p \<in> read_only st \<or> \<not> snd (fix_content content))"

definition trailing_newlines :: "string \<Rightarrow> nat" where
  \<comment> \<open>the number of newline characters at the end of a text\<close>
  "trailing_newlines s = length (takeWhile (\<lambda>c. c = LF) (rev s))"

fun has_CRLF :: "string \<Rightarrow> bool" where
  \<comment> \<open>a carriage return stands right before a line feed somewhere in the text\<close>
  "has_CRLF (a # b # cs) = ((a = CR \<and> b = LF) \<or> has_CRLF (b # cs))"
| "has_CRLF _ = False"

definition one_file_disk :: "path \<Rightarrow> string \<Rightarrow> 'm run" where
  \<comment> \<open>the state a script starts in, on a disk with one readable file\<close>
  "one_file_disk p content = fresh_run\<lparr>disk := [p \<mapsto> content]\<rparr>"

definition sample_tree :: "entry list" where
  \<comment> \<open>a tree with excluded directories at two depths\<close>
  "sample_tree =
     [File ''.env'' 10,
      Dir ''node_modules'' [Dir ''deep'' [File ''.env'' 5]],
      Dir ''src'' [Dir ''build'' [File ''out.js'' 7], File ''a.js'' 3]]"

definition unclosed_file :: string where
  "unclosed_file = ''---'' @ [LF] @ ''name: foo'' @ [LF] @ ''description: bar'' @ [LF]"

definition validate_error :: "validate_msg run \<Rightarrow> validate_msg \<Rightarrow> validate_msg run" where
  "validate_error st m =
     st\<lparr>fileCount := fileCount st + 1, console := console st @ [m], counter := counter st + 1\<rparr>"

definition md_file :: "string \<Rightarrow> string" where
  \<comment> \<open>a markdown file with this text between the delimiters\<close>
  "md_file str = ''---'' @ [LF] @ str @ [LF] @ ''---'' @ [LF] @ ''body''"

definition empty_name :: string where
  "empty_name = ''name: '' @ [CHR 0x22, CHR 0x22, LF] @ ''description: d''"
definition blank_name_only :: string where
  "blank_name_only = ''name: '' @ [CHR 0x22] @ ''  '' @ [CHR 0x22]"
definition blank_name :: string where
  "blank_name = ''name: '' @ [CHR 0x22] @ ''  '' @ [CHR 0x22, LF] @ ''description: d''"
definition number_name :: string where
  "number_name = ''name: 5'' @ [LF] @ ''description: d''"
definition shared_first :: string where
  "shared_first = ''name: shared'' @ [LF] @ ''description: first''"
definition shared_second :: string where
  "shared_second = ''name: shared'' @ [LF] @ ''description: second''"

definition list_name :: string where
  "list_name = ''name: [x]'' @ [LF] @ ''description: d''"
definition zero_name :: string where
  "zero_name = ''name: 0'' @ [LF] @ ''description: d''"

definition sample_parse :: yaml_parse where
  \<comment> \<open>what \<open>yaml.parse\<close> returns on the texts of the examples\<close>
  "sample_parse str =
     (if str = [] then Inr JNull
      else if str = empty_name
      then Inr (JObj [(''name'', JStr ''''), (''description'', JStr ''d'')])
      else if str = blank_name_only then Inr (JObj [(''name'', JStr ''  '')])
      else if str = blank_name then Inr (JObj [(''name'', JStr ''  ''), (''description'', JStr ''d'')])
      else if str = number_name then Inr (JObj [(''name'', JNum 5), (''description'', JStr ''d'')])
      else if str = shared_first
      then Inr (JObj [(''name'', JStr ''shared''), (''description'', JStr ''first'')])
      else if str = shared_second
      then Inr (JObj [(''name'', JStr ''shared''), (''description'', JStr ''second'')])
      else if str = list_name
      then Inr (JObj [(''name'', JArr [JStr ''x'']), (''description'', JStr ''d'')])
      else if str = zero_name
      then Inr (JObj [(''name'', JNum 0), (''description'', JStr ''d'')])
      else Inl ''not one of the examples'')"

definition declared_name :: "yaml_parse \<Rightarrow> string \<Rightarrow> jsval option" where
  \<comment> \<open>the name with which a file reaches the duplicate test of the consistency validator:
      its delimiters are found, its frontmatter parses and its \<open>name\<close> is truthy\<close>
  "declared_name parse content =
     (case frontmatterStr content of
        Inl e \<Rightarrow> None
      | Inr str \<Rightarrow>
          (case parse str of
             Inl message \<Rightarrow> None
           | Inr frontmatter \<Rightarrow>
               (case get frontmatter ''name'' of
                  Inl message \<Rightarrow> None
                | Inr name \<Rightarrow> if truthy name then Some name else None)))"

fun is_duplicate_msg :: "verify_msg \<Rightarrow> bool" where
  "is_duplicate_msg (DuplicateName r v) = True"
| "is_duplicate_msg m = False"

definition two_dirs :: listing where
  \<comment> \<open>an \<open>agents\<close> and a \<open>skills\<close> directory, and no \<open>commands\<close> directory\<close>
  "two_dirs = (\<lambda>dir. Absent)(''agents'' := Listed [''a.md''],
                                ''skills'' := Listed [''notes.txt'', ''b.md''])"

definition two_files :: "verify_msg run" where
  "two_files = fresh_run\<lparr>disk := [[''agents'', ''a.md''] \<mapsto> md_file shared_first,
                                    [''skills'', ''b.md''] \<mapsto> md_file shared_second]\<rparr>"

definition list_files :: "verify_msg run" where
  \<comment> \<open>two files whose name is the same YAML sequence\<close>
  "list_files = fresh_run\<lparr>disk := [[''agents'', ''a.md''] \<mapsto> md_file list_name,
                                     [''skills'', ''b.md''] \<mapsto> md_file list_name]\<rparr>"

definition zero_files :: "verify_msg run" where
  \<comment> \<open>two files whose name is the number zero\<close>
  "zero_files = fresh_run\<lparr>disk := [[''agents'', ''a.md''] \<mapsto> md_file zero_name,
                                     [''skills'', ''b.md''] \<mapsto> md_file zero_name]\<rparr>"

definition unlistable_skills :: listing where
  \<comment> \<open>\<open>skills\<close> exists and cannot be listed\<close>
  "unlistable_skills = (\<lambda>dir. Absent)(''agents'' := Listed [''a.md''], ''skills'' := Unlistable,
                                        ''commands'' := Listed [''c.md''])"

definition slash_free :: "string \<Rightarrow> bool" where
  \<comment> \<open>a name as \<open>readdirSync\<close> returns it: it holds no path separator\<close>
  "slash_free name = (CHR ''/'' \<notin> set name)"

fun names_ok :: "entry list \<Rightarrow> bool" where
  \<comment> \<open>every name in the tree is free of separators\<close>
  "names_ok [] = True"
| "names_ok (File name sz # rest) = (slash_free name \<and> names_ok rest)"
| "names_ok (Dir name sub # rest) = (slash_free name \<and> names_ok sub \<and> names_ok rest)"
| "names_ok (NoList name # rest) = (slash_free name \<and> names_ok rest)"
| "names_ok (Broken name # rest) = (slash_free name \<and> names_ok rest)"

definition under_excluded :: "string list \<Rightarrow> path \<Rightarrow> bool" where
  \<comment> \<open>one of the directories on the path, at any depth, has a name of the exclusion list\<close>
  "under_excluded excl p = (\<exists>d \<in> set (butlast p). d \<in> set excl)"

definition added :: "'m run \<Rightarrow> 'm run \<Rightarrow> 'm list" where
  \<comment> \<open>the lines a run wrote: the console after it, without the lines that were there before\<close>
  "added st st' = drop (length (console st)) (console st')"

text \<open>The language of a regular expression, by which the matcher is checked.\<close>

inductive_set repeated :: "string set \<Rightarrow> string set" for A :: "string set" where
  none: "[] \<in> repeated A"
| more: "u \<in> A \<Longrightarrow> v \<in> repeated A \<Longrightarrow> u @ v \<in> repeated A"

fun lang :: "rx \<Rightarrow> string set" where
  "lang Void = {}"
| "lang Eps = {[]}"
| "lang (Sym p) = {[c] | c. p c}"
| "lang (Seq r s) = {u @ v | u v. u \<in> lang r \<and> v \<in> lang s}"
| "lang (Alt r s) = lang r \<union> lang s"
| "lang (Star r) = repeated (lang r)"

definition env_tree :: "entry list" where
  \<comment> \<open>a dotenv file at the root and one below an excluded directory\<close>
  "env_tree = [File ''.env'' 10, Dir ''node_modules'' [Dir ''deep'' [File ''.env'' 5]]]"

definition video_tree :: "entry list" where
  "video_tree = [Dir ''src'' [Dir ''.cache'' [File ''clip.mp4'' 1]], File ''clip.mp4'' 1]"

definition text_tree :: "entry list" where
  "text_tree = [Dir ''dist'' [File ''out.js'' 2], File ''a.md'' 2]"

definition text_disk :: "fix_msg run" where
  "text_disk = fresh_run\<lparr>disk := [[''dist'', ''out.js''] \<mapsto> ''x '', [''a.md''] \<mapsto> ''y '']\<rparr>"

section \<open>Properties of the size-limit enforcer\<close>

lemma toLowerCase_video_ext: "e \<in> set VIDEO_EXTS \<Longrightarrow> toLowerCase e = e"
  by (auto simp: VIDEO_EXTS_def toLowerCase_def toLowerCase_char_def)

text \<open>
  Claim C2. A file that is not a video (its lower-cased extension is not in the video list) is
  reported by the size-limit enforcer if and only if its size is strictly greater than its
  limit: 512000 bytes (500 KiB) for an image extension, 1048576 bytes (1 MiB) otherwise. The
  report is one line and one more error; a file at its limit or below leaves the run as it is.
\<close>

theorem size_violation_iff_over_limit:
  assumes "toLowerCase (extname (basename p)) \<notin> set VIDEO_EXTS"
    and "limit = (if toLowerCase (extname (basename p)) \<in> set IMAGE_EXTS
                  then 512000 else 1048576)"
  shows "(counter (size_callback p sz st) = counter st + 1 \<longleftrightarrow> sz > limit)
       \<and> (sz > limit \<longrightarrow> size_callback p sz st =
             st\<lparr>console := console st @ [ExceedsLimit (relative p) sz limit],
                counter := counter st + 1\<rparr>)
       \<and> (sz \<le> limit \<longrightarrow> size_callback p sz st = st)"
  using assms
  by (auto simp: size_callback_def Let_def SIZE_LIMITS_images_def SIZE_LIMITS_default_def)

theorem size_violation_iff_over_limit_witness:
  "size_callback [''assets'', ''logo.PNG''] 512000 fresh_run = fresh_run
   \<and> size_callback [''assets'', ''logo.PNG''] 512001 fresh_run =
       fresh_run\<lparr>console := [ExceedsLimit ''assets/logo.PNG'' 512001 512000], counter := 1\<rparr>
   \<and> size_callback [''bundle.js''] 1048576 fresh_run = fresh_run
   \<and> counter (size_callback [''bundle.js''] 1048577 fresh_run) = 1"
proof -
  have png: "toLowerCase (extname (basename [''assets'', ''logo.PNG''])) = ''.png''"
    by (simp add: basename_def extname_def toLowerCase_def toLowerCase_char_def char_of_eq_iff)
  have js: "toLowerCase (extname (basename [''bundle.js''])) = ''.js''"
    by (simp add: basename_def extname_def toLowerCase_def toLowerCase_char_def char_of_eq_iff)
  have a: "toLowerCase (extname (basename [''assets'', ''logo.PNG''])) \<notin> set VIDEO_EXTS"
    unfolding png by (simp add: VIDEO_EXTS_def)
  have b: "toLowerCase (extname (basename [''bundle.js''])) \<notin> set VIDEO_EXTS"
    unfolding js by (simp add: VIDEO_EXTS_def)
  have la: "(512000::nat) = (if toLowerCase (extname (basename [''assets'', ''logo.PNG''])) \<in> set IMAGE_EXTS
                  then 512000 else 1048576)"
    unfolding png by (simp add: IMAGE_EXTS_def)
  have lb: "(1048576::nat) = (if toLowerCase (extname (basename [''bundle.js''])) \<in> set IMAGE_EXTS
                  then 512000 else 1048576)"
    unfolding js by (simp add: IMAGE_EXTS_def)
  show ?thesis
    using size_violation_iff_over_limit [OF a la, of 512000 fresh_run]
      size_violation_iff_over_limit [OF a la, of 512001 fresh_run]
      size_violation_iff_over_limit [OF b lb, of 1048576 fresh_run]
      size_violation_iff_over_limit [OF b lb, of 1048577 fresh_run]
    by (simp add: fresh_run_def)
qed

text \<open>
  Claim C3. A file whose extension is in the list of video extensions is reported by the
  size-limit enforcer whatever its size, zero and one included: the run gets the line
  "video files not allowed" for it and one more error.
\<close>

theorem video_always_violation:
  assumes "extname (basename p) \<in> set VIDEO_EXTS"
  shows "size_callback p sz st =
           st\<lparr>console := console st @ [VideoNotAllowed (relative p)],
              counter := counter st + 1\<rparr>"
  using assms by (simp add: size_callback_def toLowerCase_video_ext)

theorem video_always_violation_witness:
  "size_callback [''media'', ''clip.mp4''] 0 fresh_run =
     fresh_run\<lparr>console := [VideoNotAllowed ''media/clip.mp4''], counter := 1\<rparr>
   \<and> size_callback [''media'', ''clip.mp4''] 1 fresh_run =
     fresh_run\<lparr>console := [VideoNotAllowed ''media/clip.mp4''], counter := 1\<rparr>"
proof -
  have v: "extname (basename [''media'', ''clip.mp4'']) \<in> set VIDEO_EXTS"
    by (simp add: basename_def extname_def VIDEO_EXTS_def)
  show ?thesis
    using video_always_violation [OF v, of 0 fresh_run]
      video_always_violation [OF v, of 1 fresh_run]
    by (simp add: fresh_run_def)
qed

section \<open>Properties of the whitespace and newline fixer\<close>

lemma split_LF_nonempty [simp]: "split_LF s \<noteq> []"
  by (induction s) auto

lemma join_split_LF [simp]: "join_LF (split_LF s) = s"
proof (induction s)
  case Nil show ?case by simp
next
  case (Cons c cs)
  obtain l ls where e: "split_LF cs = l # ls" by (cases "split_LF cs") auto
  with Cons show ?case by (cases ls) auto
qed

lemma split_LF_no_LF: "l \<in> set (split_LF s) \<Longrightarrow> LF \<notin> set l"
proof (induction s arbitrary: l)
  case Nil then show ?case by simp
next
  case (Cons c cs)
  obtain k ks where e: "split_LF cs = k # ks" by (cases "split_LF cs") auto
  with Cons show ?case by (auto split: if_splits)
qed

lemma split_LF_append_line: "LF \<notin> set l \<Longrightarrow> split_LF (l @ LF # s) = l # split_LF s"
  by (induction l) auto

lemma split_LF_line: "LF \<notin> set l \<Longrightarrow> split_LF l = [l]"
  by (induction l) auto

lemma split_join_LF: "ls \<noteq> [] \<Longrightarrow> \<forall>l \<in> set ls. LF \<notin> set l \<Longrightarrow> split_LF (join_LF ls) = ls"
proof (induction ls rule: join_LF.induct)
  case 1 then show ?case by simp
next
  case (2 l) then show ?case by (simp add: split_LF_line)
next
  case (3 l k ks) then show ?case by (simp add: split_LF_append_line)
qed

lemma join_LF_snoc_empty: "ls \<noteq> [] \<Longrightarrow> join_LF (ls @ [[]]) = join_LF ls @ [LF]"
  by (induction ls rule: join_LF.induct) auto

lemma trimRight_idem [simp]: "trimRight (trimRight s) = trimRight s"
proof -
  have "dropWhile is_white_space (dropWhile is_white_space (rev s)) = dropWhile is_white_space (rev s)"
    by (simp add: dropWhile_idem)
  then show ?thesis by (simp add: trimRight_def)
qed

lemma set_trimRight: "set (trimRight s) \<subseteq> set s"
  using set_dropWhileD[of _ is_white_space "rev s"] by (auto simp: trimRight_def)

lemma trimRight_fixed_iff: "trimRight s = s \<longleftrightarrow> (s = [] \<or> \<not> is_white_space (last s))"
proof (cases "s = []")
  case True then show ?thesis by (simp add: trimRight_def)
next
  case False
  then obtain x xs where r: "rev s = x # xs" by (cases "rev s") auto
  then have l: "last s = x" by (metis list.sel(1) hd_rev)
  show ?thesis
  proof (cases "is_white_space x")
    case True
    have "length (trimRight s) < length s"
      using r True length_dropWhile_le[of is_white_space xs] by (simp add: trimRight_def)
    then show ?thesis using True l False by auto
  next
    case False
    then have "trimRight s = s" using r by (simp add: trimRight_def)
    then show ?thesis using False l by simp
  qed
qed


lemma trimmed_lines_no_LF: "l \<in> set (map trimRight (split_LF s)) \<Longrightarrow> LF \<notin> set l"
  using split_LF_no_LF set_trimRight by fastforce

lemma fix_content_output:
  "fst (fix_content c) =
     (if rejoined c \<noteq> [] \<and> \<not> endsWith (rejoined c) [LF] then rejoined c @ [LF] else rejoined c)"
  by (simp add: fix_content_def rejoined_def Let_def)

lemma fix_content_lines:
  "split_LF (fst (fix_content c)) =
     map trimRight (split_LF c) @
       (if rejoined c \<noteq> [] \<and> \<not> endsWith (rejoined c) [LF] then [[]] else [])"
proof -
  let ?ls = "map trimRight (split_LF c)"
  have ne: "?ls \<noteq> []" by simp
  have nolf: "\<forall>l \<in> set ?ls. LF \<notin> set l" using trimmed_lines_no_LF by blast
  have a: "split_LF (rejoined c) = ?ls"
    unfolding rejoined_def using split_join_LF [OF ne nolf] .
  have nolf': "\<forall>l \<in> set (?ls @ [[]]). LF \<notin> set l" using nolf by auto
  have b: "split_LF (rejoined c @ [LF]) = ?ls @ [[]]"
    using split_join_LF [of "?ls @ [[]]"] nolf' join_LF_snoc_empty [OF ne]
    by (simp add: rejoined_def)
  show ?thesis
  proof (cases "rejoined c \<noteq> [] \<and> \<not> endsWith (rejoined c) [LF]")
    case True
    then have "fst (fix_content c) = rejoined c @ [LF]" by (simp add: fix_content_output)
    with True b show ?thesis by simp
  next
    case False
    then have "fst (fix_content c) = rejoined c" by (simp add: fix_content_output)
    with False a show ?thesis by simp
  qed
qed

lemma fix_content_ends: "fst (fix_content c) = [] \<or> endsWith (fst (fix_content c)) [LF]"
  by (auto simp: fix_content_output endsWith_def suffix_def)

lemma fix_content_idem: "fix_content (fst (fix_content c)) = (fst (fix_content c), False)"
proof -
  let ?out = "fst (fix_content c)"
  let ?ls = "split_LF ?out"
  have tr: "map trimRight ?ls = ?ls"
    by (simp add: fix_content_lines trimRight_def[of "[]"])
  then have all: "\<forall>l \<in> set ?ls. trimRight l = l" by (metis map_eq_conv map_ident list.map_id)
  have rj: "join_LF (map trimRight ?ls) = ?out" using tr by simp
  show ?thesis
    using fix_content_ends [of c] all rj
    by (auto simp add: fix_content_def [of ?out] Let_def)
qed

lemma fix_callback_read_only [simp]: "read_only (fix_callback q st) = read_only st"
  by (simp add: fix_callback_def split: option.splits prod.splits)

lemma fix_callback_settles: "settled (fix_callback p st) p"
  using fix_content_idem
  by (auto simp: fix_callback_def settled_def split: option.splits prod.splits)
     (metis fst_conv snd_conv)+

lemma fix_callback_keeps_settled: "settled st p \<Longrightarrow> settled (fix_callback q st) p"
  using fix_content_idem
  by (auto simp: fix_callback_def settled_def split: option.splits prod.splits)

lemma fix_callback_settled_noop:
  "settled st p \<Longrightarrow>
     disk (fix_callback p st) = disk st \<and> counter (fix_callback p st) = counter st"
  by (auto simp: fix_callback_def settled_def split: option.splits prod.splits)

lemma fold_fix_keeps_settled:
  "settled st p \<Longrightarrow> settled (fold (\<lambda>(q, sz). fix_callback q) vs st) p"
  by (induction vs arbitrary: st) (auto simp: fix_callback_keeps_settled)

lemma fold_fix_settles:
  "(p, sz) \<in> set vs \<Longrightarrow> settled (fold (\<lambda>(q, sz). fix_callback q) vs st) p"
proof (induction vs arbitrary: st)
  case Nil then show ?case by simp
next
  case (Cons v vs)
  show ?case
  proof (cases "v = (p, sz)")
    case True
    then show ?thesis
      using fold_fix_keeps_settled [OF fix_callback_settles] by simp
  next
    case False
    with Cons show ?thesis by auto
  qed
qed

lemma fold_fix_settled_noop:
  "\<forall>(p, sz) \<in> set vs. settled st p \<Longrightarrow>
     disk (fold (\<lambda>(q, sz). fix_callback q) vs st) = disk st
   \<and> counter (fold (\<lambda>(q, sz). fix_callback q) vs st) = counter st"
proof (induction vs arbitrary: st)
  case Nil then show ?case by simp
next
  case (Cons v vs)
  obtain p sz where v: "v = (p, sz)" by (cases v)
  have sp: "settled st p" using Cons.prems v by auto
  have rest: "\<forall>(q, sz) \<in> set vs. settled (fix_callback p st) q"
    using Cons.prems fix_callback_keeps_settled by auto
  show ?case
    using Cons.IH [OF rest] fix_callback_settled_noop [OF sp] v by simp
qed

lemma settled_cong:
  "disk st' = disk st \<Longrightarrow> read_only st' = read_only st \<Longrightarrow> settled st' p = settled st p"
  by (simp add: settled_def split: option.splits)

lemma fold_fix_read_only [simp]:
  "read_only (fold (\<lambda>(q, sz). fix_callback q) vs st) = read_only st"
  by (induction vs arbitrary: st) auto

lemma fix_common_issues_second_run:
  assumes "st' = (fix_common_issues tree st)\<lparr>counter := 0, console := [], aborted := False\<rparr>"
  shows "counter (fix_common_issues tree st') = 0
       \<and> disk (fix_common_issues tree st') = disk st'"
proof -
  obtain vs ok where w: "walkDir PATTERNS_exclude fix_included [] tree = (vs, ok)"
    by (cases "walkDir PATTERNS_exclude fix_included [] tree")
  let ?f = "fold (\<lambda>(q, sz). fix_callback q) vs"
  have "\<forall>(p, sz) \<in> set vs. settled (?f st) p" using fold_fix_settles by auto
  moreover have "disk st' = disk (?f st)" "read_only st' = read_only (?f st)"
    using assms w by (simp_all add: fix_common_issues_def)
  ultimately have "\<forall>(p, sz) \<in> set vs. settled st' p"
    using settled_cong by (metis (mono_tags, lifting) case_prodI2 case_prodD)
  from fold_fix_settled_noop [OF this] assms w show ?thesis
    by (simp add: fix_common_issues_def)
qed

lemma clean_file_untouched:
  assumes "\<forall>line \<in> set (split_LF c). line = [] \<or> \<not> is_white_space (last line)"
    and "endsWith c [LF]"
  shows "fix_content c = (c, False)"
proof -
  have "\<forall>l \<in> set (split_LF c). trimRight l = l" using assms(1) trimRight_fixed_iff by blast
  moreover from this have "map trimRight (split_LF c) = split_LF c" by (simp add: map_idI)
  ultimately show ?thesis using assms(2) by (simp add: fix_content_def Let_def)
qed

lemma endsWith_single: "endsWith s [c] \<longleftrightarrow> s \<noteq> [] \<and> last s = c"
  by (cases s rule: rev_cases) (auto simp: endsWith_def)

lemma trailing_newlines_ends: "endsWith s [LF] \<Longrightarrow> 1 \<le> trailing_newlines s"
  by (auto simp: endsWith_def suffix_def trailing_newlines_def)

lemma trailing_newlines_snoc:
  "s \<noteq> [] \<Longrightarrow> \<not> endsWith s [LF] \<Longrightarrow> trailing_newlines (s @ [LF]) = 1"
proof -
  assume a: "s \<noteq> []" and b: "\<not> endsWith s [LF]"
  then obtain x xs where r: "rev s = x # xs" by (cases "rev s") auto
  then have "s = rev xs @ [x]" by (metis rev.simps(2) rev_rev_ident)
  with b have "x \<noteq> LF" by (auto simp: endsWith_def suffix_def)
  with r show ?thesis by (simp add: trailing_newlines_def)
qed

lemma count_LF_join:
  "ls \<noteq> [] \<Longrightarrow> \<forall>l \<in> set ls. LF \<notin> set l \<Longrightarrow> count_list (join_LF ls) LF = length ls - 1"
  by (induction ls rule: join_LF.induct) (auto simp: count_list_0_iff)

lemma count_LF_lines: "count_list s LF = length (split_LF s) - 1"
  using count_LF_join [of "split_LF s"] split_LF_no_LF by simp

lemma fix_content_keeps_newlines:
  "count_list (fst (fix_content c)) LF =
     count_list c LF + (if rejoined c \<noteq> [] \<and> \<not> endsWith (rejoined c) [LF] then 1 else 0)"
proof -
  have "length (split_LF c) \<ge> 1" by (cases "split_LF c") auto
  then show ?thesis
    by (simp add: count_LF_lines [of "fst (fix_content c)"] count_LF_lines [of c] fix_content_lines)
qed

lemma has_CRLF_needs_LF: "has_CRLF s \<Longrightarrow> LF \<in> set s"
  by (induction s rule: has_CRLF.induct) auto

lemma has_CRLF_after_LF [simp]: "has_CRLF (LF # s) = has_CRLF s"
  by (cases s) auto

lemma has_CRLF_line:
  "LF \<notin> set l \<Longrightarrow> has_CRLF (l @ LF # s) \<longleftrightarrow> (l \<noteq> [] \<and> last l = CR) \<or> has_CRLF s"
  by (induction l rule: has_CRLF.induct) auto

lemma has_CRLF_join:
  "\<forall>l \<in> set ls. LF \<notin> set l \<Longrightarrow>
     has_CRLF (join_LF ls) \<longleftrightarrow> (\<exists>l \<in> set (butlast ls). l \<noteq> [] \<and> last l = CR)"
proof (induction ls rule: join_LF.induct)
  case 1 then show ?case by simp
next
  case (2 l) then show ?case using has_CRLF_needs_LF by auto
next
  case (3 l k ks) then show ?case by (simp add: has_CRLF_line)
qed

lemma has_CRLF_lines:
  "has_CRLF s \<longleftrightarrow> (\<exists>l \<in> set (butlast (split_LF s)). l \<noteq> [] \<and> last l = CR)"
  using has_CRLF_join [of "split_LF s"] split_LF_no_LF by simp

lemma CR_white [simp]: "is_white_space CR"
  by (simp add: is_white_space_def)

lemma fix_content_no_CRLF: "\<not> has_CRLF (fst (fix_content c))"
proof
  assume "has_CRLF (fst (fix_content c))"
  then obtain l where l: "l \<in> set (split_LF (fst (fix_content c)))" "l \<noteq> []" "last l = CR"
    unfolding has_CRLF_lines [of "fst (fix_content c)"] by (blast dest: in_set_butlastD)
  from l(1) have "l = [] \<or> (\<exists>k. l = trimRight k)" by (auto simp: fix_content_lines split: if_splits)
  with l(2) obtain k where "l = trimRight k" by blast
  then have "trimRight l = l" by simp
  with l(2,3) show False by (simp add: trimRight_fixed_iff)
qed

lemma fix_content_CRLF_modified: "has_CRLF c \<Longrightarrow> snd (fix_content c)"
proof -
  assume "has_CRLF c"
  then obtain l where l: "l \<in> set (split_LF c)" "l \<noteq> []" "last l = CR"
    unfolding has_CRLF_lines [of c] by (blast dest: in_set_butlastD)
  then have "trimRight l \<noteq> l" by (simp add: trimRight_fixed_iff)
  with l(1) show ?thesis by (auto simp: fix_content_def Let_def)
qed

lemma trimRight_CR: "trimRight (l @ [CR]) = trimRight l"
  by (simp add: trimRight_def)


lemma fix_callback_unmodified:
  "disk st p = Some c \<Longrightarrow> fix_content c = (c, False) \<Longrightarrow> fix_callback p st = st"
  by (simp add: fix_callback_def)

lemma fix_callback_modified:
  "disk st p = Some c \<Longrightarrow> snd (fix_content c) \<Longrightarrow> p \<notin> read_only st \<Longrightarrow>
     fix_callback p st =
       st\<lparr>disk := (disk st)(p \<mapsto> fst (fix_content c)),
          console := console st @ [Fixed (relative p)],
          counter := counter st + 1\<rparr>"
  by (cases "fix_content c") (simp add: fix_callback_def)


lemma fix_example_crlf: "fix_content (''a  '' @ [CR, LF] @ ''b'') = ([CHR ''a'', LF, CHR ''b'', LF], True)"
  by (simp add: fix_content_def trimRight_def is_white_space_def endsWith_single Let_def)

lemma fix_example_crlf_output: "fst (fix_content (''a  '' @ [CR, LF] @ ''b'')) = [CHR ''a'', LF, CHR ''b'', LF]"
  using fix_example_crlf by simp

lemma fix_example_walk: "walkDir PATTERNS_exclude fix_included [] [Dir ''docs'' [File ''a.md'' 4]] = ([([''docs'', ''a.md''], 4)], True)"
  by (simp add: PATTERNS_exclude_def fix_included_def extname_def)

lemma fix_example_trailing: "fix_content ''x  '' = ([CHR ''x'', LF], True)"
  by (simp add: fix_content_def trimRight_def is_white_space_def endsWith_single Let_def)

lemma fix_example_run: "fix_common_issues [Dir ''docs'' [File ''a.md'' 4]] (one_file_disk [''docs'', ''a.md''] ''x  '')
  = fresh_run\<lparr>disk := [[''docs'', ''a.md''] \<mapsto> [CHR ''x'', LF]], console := [Fixed ''docs/a.md''], counter := 1\<rparr>"
  unfolding fix_common_issues_def fix_example_walk
  by (simp add: fix_callback_def fix_example_trailing one_file_disk_def fresh_run_def)

lemma crlf_example:
  "fix_content [CHR ''a'', CR, LF, CHR ''b'', CR, LF] = ([CHR ''a'', LF, CHR ''b'', LF], True)"
  by (simp add: fix_content_def trimRight_def is_white_space_def endsWith_single Let_def)


text \<open>
  Claim C5. The fixer is idempotent. Applied to its own output, the transformation of a file
  returns that output and leaves \<open>modified\<close> false. A second run over the same tree, started
  on the disk the first run left, fixes no file and writes nothing. A file whose lines end in no
  white space and whose last character is a newline is not rewritten.
\<close>

theorem normalizer_idempotent:
  "fix_content (fst (fix_content c)) = (fst (fix_content c), False)
   \<and> (again = (fix_common_issues tree st)\<lparr>counter := 0, console := [], aborted := False\<rparr>
        \<longrightarrow> counter (fix_common_issues tree again) = 0
            \<and> disk (fix_common_issues tree again) = disk (fix_common_issues tree st))
   \<and> ((\<forall>line \<in> set (split_LF c'). line = [] \<or> \<not> is_white_space (last line))
          \<and> endsWith c' [LF]
        \<longrightarrow> fix_content c' = (c', False)
            \<and> (disk st' p = Some c' \<longrightarrow> fix_callback p st' = st'))"
proof (intro conjI impI)
  show "fix_content (fst (fix_content c)) = (fst (fix_content c), False)"
    by (rule fix_content_idem)
next
  assume a: "again = (fix_common_issues tree st)\<lparr>counter := 0, console := [], aborted := False\<rparr>"
  show "counter (fix_common_issues tree again) = 0"
    using fix_common_issues_second_run [OF a] by simp
  show "disk (fix_common_issues tree again) = disk (fix_common_issues tree st)"
    using fix_common_issues_second_run [OF a] a by simp
next
  assume b: "(\<forall>line \<in> set (split_LF c'). line = [] \<or> \<not> is_white_space (last line))
          \<and> endsWith c' [LF]"
  then show c: "fix_content c' = (c', False)" using clean_file_untouched by blast
  assume "disk st' p = Some c'"
  then show "fix_callback p st' = st'" using c by (rule fix_callback_unmodified)
qed


theorem normalizer_idempotent_witness:
  "fix_content [CHR ''a'', LF, CHR ''b'', LF] = ([CHR ''a'', LF, CHR ''b'', LF], False)
   \<and> counter (fix_common_issues [Dir ''docs'' [File ''a.md'' 4]]
               (one_file_disk [''docs'', ''a.md''] ''x  '')) = 1
   \<and> counter (fix_common_issues [Dir ''docs'' [File ''a.md'' 4]]
        ((fix_common_issues [Dir ''docs'' [File ''a.md'' 4]]
            (one_file_disk [''docs'', ''a.md''] ''x  ''))\<lparr>counter := 0, console := [], aborted := False\<rparr>)) = 0
   \<and> endsWith (''ok'' @ [LF]) [LF]
   \<and> fix_callback [''a.md''] (one_file_disk [''a.md''] (''ok'' @ [LF])) = one_file_disk [''a.md''] (''ok'' @ [LF])"
proof -
  have h1: "\<forall>line \<in> set (split_LF (''ok'' @ [LF])). line = [] \<or> \<not> is_white_space (last line)"
    by (simp add: is_white_space_def)
  have h2: "endsWith (''ok'' @ [LF]) [LF]" by (simp add: endsWith_single)
  have h3: "disk (one_file_disk [''a.md''] (''ok'' @ [LF]) :: fix_msg run) [''a.md''] = Some (''ok'' @ [LF])"
    by (simp add: one_file_disk_def)
  note t = normalizer_idempotent [of "''a  '' @ [CR, LF] @ ''b''"
        "(fix_common_issues [Dir ''docs'' [File ''a.md'' 4]]
            (one_file_disk [''docs'', ''a.md''] ''x  ''))\<lparr>counter := 0, console := [], aborted := False\<rparr>"
        "[Dir ''docs'' [File ''a.md'' 4]]"
        "one_file_disk [''docs'', ''a.md''] ''x  ''" "''ok'' @ [LF]"
        "one_file_disk [''a.md''] (''ok'' @ [LF])" "[''a.md'']"]
  have a: "fix_content [CHR ''a'', LF, CHR ''b'', LF] = ([CHR ''a'', LF, CHR ''b'', LF], False)"
    using t fix_example_crlf_output by simp
  have b: "counter (fix_common_issues [Dir ''docs'' [File ''a.md'' 4]]
               (one_file_disk [''docs'', ''a.md''] ''x  '')) = 1"
    by (simp add: fix_example_run)
  have c: "counter (fix_common_issues [Dir ''docs'' [File ''a.md'' 4]]
        ((fix_common_issues [Dir ''docs'' [File ''a.md'' 4]]
            (one_file_disk [''docs'', ''a.md''] ''x  ''))\<lparr>counter := 0, console := [], aborted := False\<rparr>)) = 0"
    using t by blast
  have d: "fix_callback [''a.md''] (one_file_disk [''a.md''] (''ok'' @ [LF])) = one_file_disk [''a.md''] (''ok'' @ [LF])"
    using t h1 h2 h3 by blast
  show ?thesis using a b c d h2 by blast
qed


text \<open>
  Claim C6 says that the output of a nonempty file ends in exactly one newline. It fails in both
  directions: empty lines at the end of a file are kept, so the output of \<open>a\n\n\<close> ends in two
  newlines, and a file that holds one blank has the empty output, which ends in none.
\<close>

theorem exactly_one_final_newline_counterexample:
  "[CHR ''a'', LF, LF] \<noteq> []
   \<and> fst (fix_content [CHR ''a'', LF, LF]) = [CHR ''a'', LF, LF]
   \<and> trailing_newlines (fst (fix_content [CHR ''a'', LF, LF])) = 2
   \<and> '' '' \<noteq> []
   \<and> fst (fix_content '' '') = []
   \<and> trailing_newlines (fst (fix_content '' '')) = 0"
  by (simp add: fix_content_def trimRight_def is_white_space_def trailing_newlines_def
        endsWith_single Let_def)

text \<open>
  Claim C6, amended. An output that is not empty ends in at least one newline. The fixer adds
  one newline when the rejoined lines are not empty and do not end in one, and the output then
  ends in exactly one; otherwise the output is the rejoined lines as they are, with every
  newline they end in. No newline of the file is removed and at most one is added.
\<close>

theorem final_newline_at_least_one:
  "(fst (fix_content c) \<noteq> [] \<longrightarrow> 1 \<le> trailing_newlines (fst (fix_content c)))
   \<and> (rejoined c \<noteq> [] \<and> \<not> endsWith (rejoined c) [LF]
        \<longrightarrow> fst (fix_content c) = rejoined c @ [LF]
            \<and> trailing_newlines (fst (fix_content c)) = 1)
   \<and> (rejoined c = [] \<or> endsWith (rejoined c) [LF] \<longrightarrow> fst (fix_content c) = rejoined c)
   \<and> count_list c LF \<le> count_list (fst (fix_content c)) LF
   \<and> count_list (fst (fix_content c)) LF \<le> count_list c LF + 1"
proof (intro conjI impI)
  assume "fst (fix_content c) \<noteq> []"
  then show "1 \<le> trailing_newlines (fst (fix_content c))"
    using fix_content_ends [of c] trailing_newlines_ends by blast
next
  assume a: "rejoined c \<noteq> [] \<and> \<not> endsWith (rejoined c) [LF]"
  then show b: "fst (fix_content c) = rejoined c @ [LF]" by (simp add: fix_content_output)
  show "trailing_newlines (fst (fix_content c)) = 1"
    unfolding b using a trailing_newlines_snoc by blast
next
  assume "rejoined c = [] \<or> endsWith (rejoined c) [LF]"
  then show "fst (fix_content c) = rejoined c" by (auto simp: fix_content_output)
next
  show "count_list c LF \<le> count_list (fst (fix_content c)) LF"
    by (simp add: fix_content_keeps_newlines)
  show "count_list (fst (fix_content c)) LF \<le> count_list c LF + 1"
    by (simp add: fix_content_keeps_newlines)
qed

theorem final_newline_at_least_one_witness:
  "fst (fix_content ''a'') = [CHR ''a'', LF]
   \<and> trailing_newlines (fst (fix_content ''a'')) = 1
   \<and> rejoined [CHR ''a'', LF, LF] = [CHR ''a'', LF, LF]
   \<and> fst (fix_content [CHR ''a'', LF, LF]) = [CHR ''a'', LF, LF]
   \<and> 1 \<le> trailing_newlines (fst (fix_content [CHR ''a'', LF, LF]))"
proof -
  have r1: "rejoined ''a'' = ''a''"
    by (simp add: rejoined_def trimRight_def is_white_space_def)
  have r2: "rejoined [CHR ''a'', LF, LF] = [CHR ''a'', LF, LF]"
    by (simp add: rejoined_def trimRight_def is_white_space_def)
  have h1: "rejoined ''a'' \<noteq> [] \<and> \<not> endsWith (rejoined ''a'') [LF]"
    by (simp add: r1 endsWith_single)
  have h2: "rejoined [CHR ''a'', LF, LF] = [] \<or> endsWith (rejoined [CHR ''a'', LF, LF]) [LF]"
    by (simp add: r2 endsWith_single)
  have a: "fst (fix_content ''a'') = [CHR ''a'', LF] \<and> trailing_newlines (fst (fix_content ''a'')) = 1"
    using final_newline_at_least_one [of "''a''"] h1 r1 by (simp add: trailing_newlines_def)
  have b: "fst (fix_content [CHR ''a'', LF, LF]) = [CHR ''a'', LF, LF]"
    using final_newline_at_least_one [of "[CHR ''a'', LF, LF]"] h2 r2 by simp
  have c: "1 \<le> trailing_newlines (fst (fix_content [CHR ''a'', LF, LF]))"
    using final_newline_at_least_one [of "[CHR ''a'', LF, LF]"] b by simp
  show ?thesis using a b c r2 by blast
qed

text \<open>
  Claim C10. The fixer strips a carriage return that stands before a line feed: no output has
  one, each line of the output is the right-trimmed line of the input, right-trimming drops a
  final carriage return, and a file that has a CRLF line ending is modified, so the callback
  writes it back with its fixed content.
\<close>

theorem crlf_becomes_lf:
  "\<not> has_CRLF (fst (fix_content c))
   \<and> take (length (split_LF c)) (split_LF (fst (fix_content c))) = map trimRight (split_LF c)
   \<and> trimRight (l @ [CR]) = trimRight l
   \<and> (has_CRLF c \<longrightarrow> snd (fix_content c))
   \<and> (has_CRLF c \<and> disk st p = Some c \<and> p \<notin> read_only st \<longrightarrow>
        fix_callback p st =
          st\<lparr>disk := (disk st)(p \<mapsto> fst (fix_content c)),
             console := console st @ [Fixed (relative p)],
             counter := counter st + 1\<rparr>)"
proof (intro conjI impI)
  show "\<not> has_CRLF (fst (fix_content c))" by (rule fix_content_no_CRLF)
  show "take (length (split_LF c)) (split_LF (fst (fix_content c))) = map trimRight (split_LF c)"
    by (simp add: fix_content_lines)
  show "trimRight (l @ [CR]) = trimRight l" by (rule trimRight_CR)
next
  assume "has_CRLF c" then show "snd (fix_content c)" by (rule fix_content_CRLF_modified)
next
  assume a: "has_CRLF c \<and> disk st p = Some c \<and> p \<notin> read_only st"
  then have "snd (fix_content c)" using fix_content_CRLF_modified by blast
  with a show "fix_callback p st =
          st\<lparr>disk := (disk st)(p \<mapsto> fst (fix_content c)),
             console := console st @ [Fixed (relative p)],
             counter := counter st + 1\<rparr>"
    using fix_callback_modified by blast
qed

theorem crlf_becomes_lf_witness:
  "has_CRLF (''a'' @ [CR, LF] @ ''b'' @ [CR, LF])
   \<and> fix_callback [''a.js''] (one_file_disk [''a.js''] (''a'' @ [CR, LF] @ ''b'' @ [CR, LF]))
       = fresh_run\<lparr>disk := [[''a.js''] \<mapsto> [CHR ''a'', LF, CHR ''b'', LF]],
                    console := [Fixed ''a.js''], counter := 1\<rparr>"
proof -
  have h: "has_CRLF (''a'' @ [CR, LF] @ ''b'' @ [CR, LF])" by simp
  have d: "disk (one_file_disk [''a.js''] (''a'' @ [CR, LF] @ ''b'' @ [CR, LF]) :: fix_msg run) [''a.js'']
             = Some (''a'' @ [CR, LF] @ ''b'' @ [CR, LF])"
    by (simp add: one_file_disk_def)
  have r: "[''a.js''] \<notin> read_only (one_file_disk [''a.js''] (''a'' @ [CR, LF] @ ''b'' @ [CR, LF]) :: fix_msg run)"
    by (simp add: one_file_disk_def fresh_run_def)
  have "fix_callback [''a.js''] (one_file_disk [''a.js''] (''a'' @ [CR, LF] @ ''b'' @ [CR, LF]))
       = (one_file_disk [''a.js''] (''a'' @ [CR, LF] @ ''b'' @ [CR, LF]))
           \<lparr>disk := (disk (one_file_disk [''a.js''] (''a'' @ [CR, LF] @ ''b'' @ [CR, LF]) :: fix_msg run))
                      ([''a.js''] \<mapsto> fst (fix_content (''a'' @ [CR, LF] @ ''b'' @ [CR, LF]))),
             console := console (one_file_disk [''a.js''] (''a'' @ [CR, LF] @ ''b'' @ [CR, LF]) :: fix_msg run) @ [Fixed (relative [''a.js''])],
             counter := counter (one_file_disk [''a.js''] (''a'' @ [CR, LF] @ ''b'' @ [CR, LF]) :: fix_msg run) + 1\<rparr>"
    using crlf_becomes_lf [of "''a'' @ [CR, LF] @ ''b'' @ [CR, LF]" "[]"
        "one_file_disk [''a.js''] (''a'' @ [CR, LF] @ ''b'' @ [CR, LF])" "[''a.js'']"] h d r
    by blast
  then show ?thesis using h
    by (simp add: crlf_example one_file_disk_def fresh_run_def)
qed


section \<open>Properties of the regular expressions\<close>

lemma nullable_lang: "nullable r \<longleftrightarrow> [] \<in> lang r"
  by (induction r) (auto intro: repeated.none)

lemma lang_seq [simp]: "lang (seq r s) = lang (Seq r s)"
  by (cases "(r, s)" rule: seq.cases) auto

lemma lang_alt [simp]: "lang (alt r s) = lang r \<union> lang s"
  by (cases "(r, s)" rule: alt.cases) auto

lemma repeated_Cons:
  "c # w \<in> repeated A \<longleftrightarrow> (\<exists>u v. w = u @ v \<and> c # u \<in> A \<and> v \<in> repeated A)"
proof
  assume "c # w \<in> repeated A"
  then show "\<exists>u v. w = u @ v \<and> c # u \<in> A \<and> v \<in> repeated A"
  proof (induction "c # w" arbitrary: w rule: repeated.induct)
    case (more u v)
    show ?case
    proof (cases u)
      case Nil
      with more show ?thesis by simp
    next
      case (Cons a u')
      with more have "w = u' @ v \<and> c # u' \<in> A \<and> v \<in> repeated A" by simp
      then show ?thesis by blast
    qed
  qed
next
  assume "\<exists>u v. w = u @ v \<and> c # u \<in> A \<and> v \<in> repeated A"
  then obtain u v where "w = u @ v" "c # u \<in> A" "v \<in> repeated A" by blast
  then show "c # w \<in> repeated A" using repeated.more [of "c # u" A v] by simp
qed

lemma lang_deriv: "lang (deriv c r) = {w. c # w \<in> lang r}"
proof (induction r)
  case (Seq r s)
  show ?case
  proof (rule set_eqI)
    fix w
    have "c # w \<in> lang (Seq r s) \<longleftrightarrow>
            (\<exists>u v. w = u @ v \<and> c # u \<in> lang r \<and> v \<in> lang s) \<or> ([] \<in> lang r \<and> c # w \<in> lang s)"
      by (auto simp: Cons_eq_append_conv)
    then show "w \<in> lang (deriv c (Seq r s)) \<longleftrightarrow> w \<in> {w. c # w \<in> lang (Seq r s)}"
      using Seq by (auto simp: nullable_lang)
  qed
next
  case (Star r)
  then show ?case by (auto simp: repeated_Cons)
qed auto

lemma rx_match_lang: "rx_match r w \<longleftrightarrow> w \<in> lang r"
  by (induction w arbitrary: r) (auto simp: nullable_lang lang_deriv)

lemma lang_lit [simp]: "lang (lit w) = {w}"
  by (induction w) auto

lemma repeated_chars: "repeated {[c] | c. P c} = {w. \<forall>c \<in> set w. P c}"
proof (rule set_eqI)
  fix w
  show "w \<in> repeated {[c] | c. P c} \<longleftrightarrow> w \<in> {w. \<forall>c \<in> set w. P c}"
    by (induction w) (auto simp: repeated_Cons intro: repeated.none)
qed

lemma lang_anything [simp]: "lang anything = UNIV"
  using repeated_chars [of "\<lambda>c. True"] by (simp add: anything_def)

lemma test_lang:
  "test re w \<longleftrightarrow>
     (\<exists>before mid after. w = before @ mid @ after \<and> mid \<in> lang (body re)
        \<and> (from_start re \<longrightarrow> before = []) \<and> (to_end re \<longrightarrow> after = []))"
  by (auto simp: test_def rx_match_lang)

lemma test_env_file:
  "test env_file name \<longleftrightarrow>
     name = ''.env'' \<or> (\<exists>rest. name = ''.env.'' @ rest \<and> (\<forall>c \<in> set rest. \<not> is_line_terminator c))"
  by (auto simp: test_lang env_file_def opt_def dot_def repeated_chars)


section \<open>Properties of the sensitive-file detector\<close>

lemma env_file_isBlocked: "test env_file fileName \<Longrightarrow> isBlocked fileName relativePath"
  by (simp add: isBlocked_def BLOCKED_PATTERNS_def)

lemma blocked_callback_disk [simp]: "disk (blocked_callback p st) = disk st"
  by (simp add: blocked_callback_def Let_def split: option.splits)

lemma fold_blocked_disk [simp]:
  "disk (fold (\<lambda>(p, sz). blocked_callback p) vs st) = disk st"
  by (induction vs arbitrary: st) auto

lemma check_blocked_files_disk: "disk (check_blocked_files tree st) = disk st"
  by (simp add: check_blocked_files_def split: prod.splits)

lemma blocked_callback_counter:
  "counter (blocked_callback p st) =
     counter st + (if isBlocked (basename p) (relative p) then 1 else 0)"
  by (simp add: blocked_callback_def Let_def split: option.splits)

lemma fold_blocked_counter:
  "counter (fold (\<lambda>(p, sz). blocked_callback p) vs st) =
     counter st + length (filter (\<lambda>(p, sz). isBlocked (basename p) (relative p)) vs)"
  by (induction vs arbitrary: st) (auto simp: blocked_callback_counter)

lemma check_blocked_files_counter:
  "counter (check_blocked_files tree st) =
     counter st + length (filter (\<lambda>(p, sz). isBlocked (basename p) (relative p))
                            (fst (walkDir EXCLUDED_DIRS (\<lambda>_. True) [] tree)))"
  by (simp add: check_blocked_files_def fold_blocked_counter split: prod.splits)

lemma env_names: "test env_file ''.env'' \<and> test env_file ''.env.production'' \<and> test env_file ''.env.local''"
  by (simp add: test_env_file is_line_terminator_def)

lemma not_env_names: "\<not> test env_file ''.envrc'' \<and> \<not> test env_file ''my.env''"
  by (simp add: test_env_file)

lemma env_local_patterns:
  "length (filter (\<lambda>pattern. case pattern of Rx re \<Rightarrow> test re ''.env.local'' | Str t \<Rightarrow> False)
             BLOCKED_PATTERNS) = 2"
  by code_simp

lemma suspicious_example: "list_ex (\<lambda>p. test p ''token=1'') suspiciousPatterns"
  by code_simp

text \<open>
  Claim C9. For a file whose base name matches \<open>/^\.env(\..*)?$/\<close> the callback of the
  sensitive-file detector counts one blocked file and writes one \<open>BLOCKED\<close> line for it
  (followed by the advice line and, when its content looks like credentials, by the warning),
  however many patterns the name matches. The detector leaves the disk as it is, in the
  callback and over a whole run, and a run counts each visited blocked file once.
\<close>

theorem env_file_reported_once:
  assumes "test env_file (basename p)"
  shows "counter (blocked_callback p st) = counter st + 1
       \<and> (\<exists>extra. console (blocked_callback p st)
                     = console st @ [Blocked (relative p), AddToGitignore] @ extra
                   \<and> (extra = [] \<or> extra = [ContainsCredentials]))
       \<and> disk (blocked_callback p st) = disk st
       \<and> disk (check_blocked_files tree st) = disk st
       \<and> counter (check_blocked_files tree st) =
           counter st + length (filter (\<lambda>(q, sz). isBlocked (basename q) (relative q))
                                  (fst (walkDir EXCLUDED_DIRS (\<lambda>_. True) [] tree)))"
proof -
  have b: "isBlocked (basename p) (relative p)" using assms by (rule env_file_isBlocked)
  have "counter (blocked_callback p st) = counter st + 1"
    using b by (simp add: blocked_callback_counter)
  moreover have "\<exists>extra. console (blocked_callback p st)
                   = console st @ [Blocked (relative p), AddToGitignore] @ extra
                 \<and> (extra = [] \<or> extra = [ContainsCredentials])"
    using b by (simp add: blocked_callback_def Let_def split: option.splits)
  moreover have "disk (blocked_callback p st) = disk st" by simp
  moreover have "disk (check_blocked_files tree st) = disk st" by (rule check_blocked_files_disk)
  moreover have "counter (check_blocked_files tree st) =
           counter st + length (filter (\<lambda>(q, sz). isBlocked (basename q) (relative q))
                                  (fst (walkDir EXCLUDED_DIRS (\<lambda>_. True) [] tree)))"
    by (rule check_blocked_files_counter)
  ultimately show ?thesis by blast
qed

theorem env_file_reported_once_witness:
  "test env_file (basename [''.env.local''])
   \<and> length (filter (\<lambda>pattern. case pattern of Rx re \<Rightarrow> test re ''.env.local'' | Str t \<Rightarrow> False)
               BLOCKED_PATTERNS) = 2
   \<and> counter (blocked_callback [''.env.local''] fresh_run) = 1
   \<and> console (blocked_callback [''.env.local''] fresh_run) = [Blocked ''.env.local'', AddToGitignore]
   \<and> test env_file (basename [''config'', ''.env.production''])
   \<and> blocked_callback [''config'', ''.env.production'']
        (one_file_disk [''config'', ''.env.production''] ''token=1'')
      = (one_file_disk [''config'', ''.env.production''] ''token=1'')
          \<lparr>console := [Blocked ''config/.env.production'', AddToGitignore, ContainsCredentials],
           counter := 1\<rparr>"
proof -
  have h1: "test env_file (basename [''config'', ''.env.production''])"
    using env_names by (simp add: basename_def)
  have h2: "test env_file (basename [''.env.local''])"
    using env_names by (simp add: basename_def)
  let ?st = "one_file_disk [''config'', ''.env.production''] ''token=1'' :: blocked_msg run"
  have b1: "isBlocked (basename [''config'', ''.env.production''])
              (relative [''config'', ''.env.production''])"
    using h1 by (rule env_file_isBlocked)
  have n2: "counter (blocked_callback [''.env.local''] fresh_run) = 1"
    using env_file_reported_once [OF h2, of fresh_run "[]"] by (simp add: fresh_run_def)
  have c2: "console (blocked_callback [''.env.local''] fresh_run)
              = [Blocked ''.env.local'', AddToGitignore]"
    using env_file_isBlocked [OF h2, of "relative [''.env.local'']"]
    by (simp add: blocked_callback_def Let_def fresh_run_def)
  have e: "blocked_callback [''config'', ''.env.production''] ?st
      = ?st\<lparr>console := [Blocked ''config/.env.production'', AddToGitignore, ContainsCredentials],
           counter := 1\<rparr>"
    using b1 suspicious_example
    by (simp add: blocked_callback_def Let_def one_file_disk_def fresh_run_def)
  show ?thesis using h1 h2 e n2 c2 env_local_patterns by blast
qed


section \<open>Properties of the walker\<close>

lemma walkDir_visits:
  "(p, sz) \<in> set (fst (walkDir excl keep dir t)) \<Longrightarrow>
     \<exists>rel. p = dir @ rel \<and> rel \<noteq> [] \<and> (\<forall>d \<in> set (butlast rel). d \<notin> set excl) \<and> keep (last rel)"
proof (induction excl keep dir t rule: walkDir.induct)
  case (1 excl keep dir)
  then show ?case by simp
next
  case (2 excl keep dir name sz' rest)
  then show ?case by (auto split: prod.splits if_splits)
next
  case (3 excl keep dir name sub rest)
  show ?case
  proof (cases "name \<in> set excl")
    case True
    with 3 show ?thesis by simp
  next
    case False
    obtain vs ok where w: "walkDir excl keep (dir @ [name]) sub = (vs, ok)"
      by (cases "walkDir excl keep (dir @ [name]) sub")
    from "3.prems" False w have "(p, sz) \<in> set vs \<or> (ok \<and> (p, sz) \<in> set (fst (walkDir excl keep dir rest)))"
      by (auto split: prod.splits if_splits)
    then show ?thesis
    proof
      assume "(p, sz) \<in> set vs"
      then obtain rel where r: "p = (dir @ [name]) @ rel" "rel \<noteq> []"
          "\<forall>d \<in> set (butlast rel). d \<notin> set excl" "keep (last rel)"
        using "3.IH"(2) [OF False] w by auto
      have "p = dir @ (name # rel) \<and> name # rel \<noteq> []
            \<and> (\<forall>d \<in> set (butlast (name # rel)). d \<notin> set excl) \<and> keep (last (name # rel))"
        using r False by simp
      then show ?thesis by blast
    next
      assume "ok \<and> (p, sz) \<in> set (fst (walkDir excl keep dir rest))"
      then show ?thesis using "3.IH"(3) [OF False w [symmetric] refl] by simp
    qed
  qed
next
  case (4 excl keep dir name rest)
  then show ?case by (auto split: if_splits)
next
  case (5 excl keep dir name rest)
  then show ?case by simp
qed

lemma walkDir_root:
  "(p, sz) \<in> set (fst (walkDir excl keep [] t)) \<Longrightarrow>
     p \<noteq> [] \<and> (\<forall>d \<in> set (butlast p). d \<notin> set excl) \<and> keep (last p)"
  using walkDir_visits [of p sz excl keep "[]" t] by auto

lemma append_sep_eq:
  "x \<notin> set a \<Longrightarrow> x \<notin> set b \<Longrightarrow> a @ x # u = b @ x # v \<Longrightarrow> a = b \<and> u = v"
proof (induction a arbitrary: b)
  case Nil
  then show ?case by (cases b) auto
next
  case (Cons c a)
  then show ?case by (cases b) auto
qed

lemma relative_slash:
  "relative (n # m # ms) = n @ CHR ''/'' # relative (m # ms)"
  by simp

lemma relative_single_no_slash:
  "slash_free n \<Longrightarrow> relative [n] \<noteq> relative (a # b # cs)"
proof
  assume s: "slash_free n" and e: "relative [n] = relative (a # b # cs)"
  have "CHR ''/'' \<in> set (relative (a # b # cs))" by simp
  with e have "CHR ''/'' \<in> set n" by simp
  with s show False by (simp add: slash_free_def)
qed

lemma relative_inject:
  "p \<noteq> [] \<Longrightarrow> q \<noteq> [] \<Longrightarrow> \<forall>n \<in> set p. slash_free n \<Longrightarrow> \<forall>n \<in> set q. slash_free n \<Longrightarrow>
     relative p = relative q \<Longrightarrow> p = q"
proof (induction p arbitrary: q rule: relative.induct)
  case 1
  then show ?case by simp
next
  case (2 n)
  show ?case
  proof (cases q rule: relative.cases)
    case 1 with 2 show ?thesis by simp
  next
    case (2 m) with "2.prems" show ?thesis by simp
  next
    case (3 a b cs)
    with "2.prems" relative_single_no_slash [of n a b cs] show ?thesis by simp
  qed
next
  case (3 n m ms)
  show ?case
  proof (cases q rule: relative.cases)
    case 1 with "3.prems" show ?thesis by simp
  next
    case (2 k)
    with "3.prems" relative_single_no_slash [of k n m ms] show ?thesis by simp
  next
    case (3 a b cs)
    have na: "CHR ''/'' \<notin> set n" "CHR ''/'' \<notin> set a"
      using "3.prems" 3 by (simp_all add: slash_free_def)
    have "n @ CHR ''/'' # relative (m # ms) = a @ CHR ''/'' # relative (b # cs)"
      using "3.prems"(5) 3 by simp
    from append_sep_eq [OF na this] have e: "n = a" "relative (m # ms) = relative (b # cs)"
      by simp_all
    have "m # ms = b # cs"
      using "3.IH" [of "b # cs"] "3.prems" 3 e(2) by simp
    with e(1) 3 show ?thesis by simp
  qed
qed

lemma walkDir_slash_free:
  "names_ok t \<Longrightarrow> \<forall>n \<in> set dir. slash_free n \<Longrightarrow>
     (p, sz) \<in> set (fst (walkDir excl keep dir t)) \<Longrightarrow> \<forall>n \<in> set p. slash_free n"
proof (induction excl keep dir t rule: walkDir.induct)
  case (1 excl keep dir)
  then show ?case by simp
next
  case (2 excl keep dir name sz' rest)
  then show ?case by (auto split: prod.splits if_splits)
next
  case (3 excl keep dir name sub rest)
  show ?case
  proof (cases "name \<in> set excl")
    case True
    with 3 show ?thesis by simp
  next
    case False
    obtain vs ok where w: "walkDir excl keep (dir @ [name]) sub = (vs, ok)"
      by (cases "walkDir excl keep (dir @ [name]) sub")
    from "3.prems" False w
    have "(p, sz) \<in> set vs \<or> (ok \<and> (p, sz) \<in> set (fst (walkDir excl keep dir rest)))"
      by (auto split: prod.splits if_splits)
    then show ?thesis
    proof
      assume "(p, sz) \<in> set vs"
      then show ?thesis using "3.IH"(2) [OF False] "3.prems"(1,2) w by simp
    next
      assume "ok \<and> (p, sz) \<in> set (fst (walkDir excl keep dir rest))"
      then show ?thesis
        using "3.IH"(3) [OF False w [symmetric] refl] "3.prems"(1,2) by simp
    qed
  qed
next
  case (4 excl keep dir name rest)
  then show ?case by (auto split: if_splits)
next
  case (5 excl keep dir name rest)
  then show ?case by simp
qed

lemma added_append: "console st' = console st @ new \<Longrightarrow> added st st' = new"
  by (simp add: added_def)

lemma fold_added:
  assumes step: "\<And>p sz s. \<exists>new. console (cb p sz s) = console s @ new \<and> (\<forall>m \<in> set new. Q p m)"
  shows "\<exists>new. console (fold (\<lambda>(p, sz). cb p sz) vs st) = console st @ new
               \<and> (\<forall>m \<in> set new. \<exists>(p, sz) \<in> set vs. Q p m)"
proof (induction vs arbitrary: st)
  case Nil
  then show ?case by simp
next
  case (Cons v vs)
  obtain p sz where v: "v = (p, sz)" by (cases v)
  obtain new1 where n1: "console (cb p sz st) = console st @ new1" "\<forall>m \<in> set new1. Q p m"
    using step [of p sz st] by blast
  obtain new2 where n2: "console (fold (\<lambda>(p, sz). cb p sz) vs (cb p sz st))
                            = console (cb p sz st) @ new2"
      "\<forall>m \<in> set new2. \<exists>(p, sz) \<in> set vs. Q p m"
    using Cons [of "cb p sz st"] by blast
  have "console (fold (\<lambda>(p, sz). cb p sz) (v # vs) st) = console st @ (new1 @ new2)"
    using v n1(1) n2(1) by simp
  moreover have "\<forall>m \<in> set (new1 @ new2). \<exists>(p, sz) \<in> set (v # vs). Q p m"
    using v n1(2) n2(2) by auto
  ultimately show ?case by blast
qed

lemma blocked_callback_added:
  "\<exists>new. console (blocked_callback p st) = console st @ new
        \<and> (\<forall>m \<in> set new. m = AddToGitignore \<or> m = ContainsCredentials \<or> m = Blocked (relative p))"
  by (simp add: blocked_callback_def Let_def split: option.splits)

lemma size_callback_added:
  "\<exists>new. console (size_callback p sz st) = console st @ new
        \<and> (\<forall>m \<in> set new. m = VideoNotAllowed (relative p)
                          \<or> (\<exists>a b. m = ExceedsLimit (relative p) a b))"
  by (simp add: size_callback_def Let_def)

lemma fix_callback_added:
  "\<exists>new. console (fix_callback p st) = console st @ new
        \<and> (\<forall>m \<in> set new. m = Fixed (relative p) \<or> m = CouldNotProcess (relative p))"
  by (simp add: fix_callback_def Let_def split: option.splits prod.splits)

lemma blocked_run_added:
  "console (check_blocked_files tree st) = console st @ added st (check_blocked_files tree st)
   \<and> (\<forall>m \<in> set (added st (check_blocked_files tree st)).
         m = AddToGitignore \<or> m = ContainsCredentials
         \<or> (\<exists>(q, z) \<in> set (fst (walkDir EXCLUDED_DIRS (\<lambda>_. True) [] tree)). m = Blocked (relative q)))"
proof -
  obtain vs ok where w: "walkDir EXCLUDED_DIRS (\<lambda>_. True) [] tree = (vs, ok)"
    by (cases "walkDir EXCLUDED_DIRS (\<lambda>_. True) [] tree")
  have "\<exists>new. console (fold (\<lambda>(p, sz). (\<lambda>p sz. blocked_callback p) p sz) vs st) = console st @ new
          \<and> (\<forall>m \<in> set new. \<exists>(p, sz) \<in> set vs.
                 m = AddToGitignore \<or> m = ContainsCredentials \<or> m = Blocked (relative p))"
    by (rule fold_added) (rule blocked_callback_added)
  then obtain new where n: "console (check_blocked_files tree st) = console st @ new"
      "\<forall>m \<in> set new. \<exists>(p, sz) \<in> set vs.
          m = AddToGitignore \<or> m = ContainsCredentials \<or> m = Blocked (relative p)"
    using w by (auto simp: check_blocked_files_def)
  have a: "added st (check_blocked_files tree st) = new" using n(1) by (rule added_append)
  show ?thesis unfolding a using n w by auto
qed

lemma size_run_added:
  "console (check_file_sizes tree st) = console st @ added st (check_file_sizes tree st)
   \<and> (\<forall>m \<in> set (added st (check_file_sizes tree st)).
         \<exists>(q, z) \<in> set (fst (walkDir EXCLUDED_DIRS_size (\<lambda>_. True) [] tree)).
            m = VideoNotAllowed (relative q) \<or> (\<exists>a b. m = ExceedsLimit (relative q) a b))"
proof -
  obtain vs ok where w: "walkDir EXCLUDED_DIRS_size (\<lambda>_. True) [] tree = (vs, ok)"
    by (cases "walkDir EXCLUDED_DIRS_size (\<lambda>_. True) [] tree")
  have "\<exists>new. console (fold (\<lambda>(p, sz). size_callback p sz) vs st) = console st @ new
          \<and> (\<forall>m \<in> set new. \<exists>(p, sz) \<in> set vs.
                 m = VideoNotAllowed (relative p) \<or> (\<exists>a b. m = ExceedsLimit (relative p) a b))"
    by (rule fold_added) (rule size_callback_added)
  then obtain new where n: "console (check_file_sizes tree st) = console st @ new"
      "\<forall>m \<in> set new. \<exists>(p, sz) \<in> set vs.
          m = VideoNotAllowed (relative p) \<or> (\<exists>a b. m = ExceedsLimit (relative p) a b)"
    using w by (auto simp: check_file_sizes_def)
  have a: "added st (check_file_sizes tree st) = new" using n(1) by (rule added_append)
  show ?thesis unfolding a using n w by simp
qed

lemma fix_run_added:
  "console (fix_common_issues tree st) = console st @ added st (fix_common_issues tree st)
   \<and> (\<forall>m \<in> set (added st (fix_common_issues tree st)).
         \<exists>(q, z) \<in> set (fst (walkDir PATTERNS_exclude fix_included [] tree)).
            m = Fixed (relative q) \<or> m = CouldNotProcess (relative q))"
proof -
  obtain vs ok where w: "walkDir PATTERNS_exclude fix_included [] tree = (vs, ok)"
    by (cases "walkDir PATTERNS_exclude fix_included [] tree")
  have "\<exists>new. console (fold (\<lambda>(p, sz). (\<lambda>p sz. fix_callback p) p sz) vs st) = console st @ new
          \<and> (\<forall>m \<in> set new. \<exists>(p, sz) \<in> set vs.
                 m = Fixed (relative p) \<or> m = CouldNotProcess (relative p))"
    by (rule fold_added) (rule fix_callback_added)
  then obtain new where n: "console (fix_common_issues tree st) = console st @ new"
      "\<forall>m \<in> set new. \<exists>(p, sz) \<in> set vs.
          m = Fixed (relative p) \<or> m = CouldNotProcess (relative p)"
    using w by (auto simp: fix_common_issues_def)
  have a: "added st (fix_common_issues tree st) = new" using n(1) by (rule added_append)
  show ?thesis unfolding a using n w by simp
qed

lemma excluded_not_visited:
  "under_excluded excl p \<Longrightarrow> (p, sz) \<notin> set (fst (walkDir excl keep [] tree))"
  using walkDir_root [of p sz excl keep tree] by (auto simp: under_excluded_def)

lemma visited_not_excluded:
  "(q, z) \<in> set (fst (walkDir excl keep [] tree)) \<Longrightarrow> q \<noteq> [] \<and> \<not> under_excluded excl q"
  using walkDir_root [of q z excl keep tree] by (auto simp: under_excluded_def)

lemma excluded_not_named:
  assumes "names_ok tree" and "\<forall>n \<in> set p. slash_free n" and "under_excluded excl p"
    and "(q, z) \<in> set (fst (walkDir excl keep [] tree))"
  shows "relative q \<noteq> relative p"
proof
  assume e: "relative q = relative p"
  have q: "q \<noteq> []" "\<forall>n \<in> set q. slash_free n"
    using visited_not_excluded [OF assms(4)] walkDir_slash_free [OF assms(1) _ assms(4)] by simp_all
  have "p \<noteq> []" using assms(3) by (auto simp: under_excluded_def)
  from relative_inject [OF q(1) this q(2) assms(2) e] have "q = p" .
  with assms(3,4) excluded_not_visited show False by blast
qed

lemma sample_walk:
  "walkDir EXCLUDED_DIRS (\<lambda>_. True) [] sample_tree = ([([''.env''], 10), ([''src'', ''a.js''], 3)], True)"
  by (simp add: sample_tree_def EXCLUDED_DIRS_def)

lemma env_tree_run:
  "check_blocked_files env_tree fresh_run
     = fresh_run\<lparr>console := [Blocked ''.env'', AddToGitignore], counter := 1\<rparr>"
proof -
  have w: "walkDir EXCLUDED_DIRS (\<lambda>_. True) [] env_tree = ([([''.env''], 10)], True)"
    by (simp add: env_tree_def EXCLUDED_DIRS_def)
  have b: "isBlocked (basename [''.env'']) (relative [''.env''])"
    using env_names by (simp add: basename_def env_file_isBlocked)
  show ?thesis
    unfolding check_blocked_files_def w using b
    by (simp add: blocked_callback_def Let_def fresh_run_def)
qed

lemma video_tree_run:
  "check_file_sizes video_tree fresh_run
     = fresh_run\<lparr>console := [VideoNotAllowed ''clip.mp4''], counter := 1\<rparr>"
proof -
  have w: "walkDir EXCLUDED_DIRS_size (\<lambda>_. True) [] video_tree = ([([''clip.mp4''], 1)], True)"
    by (simp add: video_tree_def EXCLUDED_DIRS_size_def)
  have v: "extname (basename [''clip.mp4'']) \<in> set VIDEO_EXTS"
    by (simp add: basename_def extname_def VIDEO_EXTS_def)
  show ?thesis
    unfolding check_file_sizes_def w using v
    by (simp add: size_callback_def toLowerCase_video_ext fresh_run_def)
qed

lemma text_tree_run:
  "fix_common_issues text_tree text_disk
     = text_disk\<lparr>disk := (disk text_disk)([''a.md''] \<mapsto> [CHR ''y'', LF]),
                 console := [Fixed ''a.md''], counter := 1\<rparr>"
proof -
  have w: "walkDir PATTERNS_exclude fix_included [] text_tree = ([([''a.md''], 2)], True)"
    by (simp add: text_tree_def PATTERNS_exclude_def fix_included_def extname_def)
  have f: "fix_content ''y '' = ([CHR ''y'', LF], True)"
    by (simp add: fix_content_def trimRight_def is_white_space_def endsWith_single Let_def)
  show ?thesis
    unfolding fix_common_issues_def w
    by (simp add: fix_callback_def f text_disk_def fresh_run_def)
qed

text \<open>
  Claim C1. No file under a directory whose name is in the exclusion set of a walk, at any
  depth below the scan root, is passed to the callback: the walk skips the whole subtree of
  such a directory. Nor is it reported. A run of the sensitive-file detector, of the size-limit
  enforcer or of the fixer only appends to the console, and every line it appends that names a
  file names one that its own walk visited, which lies under no directory of that script's
  exclusion set. In a tree whose names hold no separator, no line that a run appends names a
  file under a directory of that script's exclusion set.
\<close>

theorem excluded_directories_pruned:
  "(under_excluded excl p \<longrightarrow> (p, sz) \<notin> set (fst (walkDir excl keep [] tree)))
   \<and> console (check_blocked_files tree st) = console st @ added st (check_blocked_files tree st)
   \<and> (\<forall>m \<in> set (added st (check_blocked_files tree st)).
         m = AddToGitignore \<or> m = ContainsCredentials
         \<or> (\<exists>q z. (q, z) \<in> set (fst (walkDir EXCLUDED_DIRS (\<lambda>_. True) [] tree))
                \<and> m = Blocked (relative q) \<and> \<not> under_excluded EXCLUDED_DIRS q))
   \<and> console (check_file_sizes tree st') = console st' @ added st' (check_file_sizes tree st')
   \<and> (\<forall>m \<in> set (added st' (check_file_sizes tree st')).
         \<exists>q z. (q, z) \<in> set (fst (walkDir EXCLUDED_DIRS_size (\<lambda>_. True) [] tree))
              \<and> (m = VideoNotAllowed (relative q) \<or> (\<exists>a b. m = ExceedsLimit (relative q) a b))
              \<and> \<not> under_excluded EXCLUDED_DIRS_size q)
   \<and> console (fix_common_issues tree st'') = console st'' @ added st'' (fix_common_issues tree st'')
   \<and> (\<forall>m \<in> set (added st'' (fix_common_issues tree st'')).
         \<exists>q z. (q, z) \<in> set (fst (walkDir PATTERNS_exclude fix_included [] tree))
              \<and> (m = Fixed (relative q) \<or> m = CouldNotProcess (relative q))
              \<and> \<not> under_excluded PATTERNS_exclude q)
   \<and> (names_ok tree \<and> (\<forall>n \<in> set p. slash_free n) \<longrightarrow>
        (under_excluded EXCLUDED_DIRS p
           \<longrightarrow> Blocked (relative p) \<notin> set (added st (check_blocked_files tree st)))
      \<and> (under_excluded EXCLUDED_DIRS_size p
           \<longrightarrow> VideoNotAllowed (relative p) \<notin> set (added st' (check_file_sizes tree st'))
               \<and> (\<forall>a b. ExceedsLimit (relative p) a b
                          \<notin> set (added st' (check_file_sizes tree st'))))
      \<and> (under_excluded PATTERNS_exclude p
           \<longrightarrow> Fixed (relative p) \<notin> set (added st'' (fix_common_issues tree st''))
               \<and> CouldNotProcess (relative p) \<notin> set (added st'' (fix_common_issues tree st''))))"
proof -
  have c1: "under_excluded excl p \<longrightarrow> (p, sz) \<notin> set (fst (walkDir excl keep [] tree))"
    using excluded_not_visited by blast
  note b = blocked_run_added [of tree st]
  note s = size_run_added [of tree st']
  note f = fix_run_added [of tree st'']
  have c3: "\<forall>m \<in> set (added st (check_blocked_files tree st)).
         m = AddToGitignore \<or> m = ContainsCredentials
         \<or> (\<exists>q z. (q, z) \<in> set (fst (walkDir EXCLUDED_DIRS (\<lambda>_. True) [] tree))
                \<and> m = Blocked (relative q) \<and> \<not> under_excluded EXCLUDED_DIRS q)"
  proof
    fix m assume "m \<in> set (added st (check_blocked_files tree st))"
    with b have "m = AddToGitignore \<or> m = ContainsCredentials
         \<or> (\<exists>(q, z) \<in> set (fst (walkDir EXCLUDED_DIRS (\<lambda>_. True) [] tree)). m = Blocked (relative q))"
      by blast
    then show "m = AddToGitignore \<or> m = ContainsCredentials
         \<or> (\<exists>q z. (q, z) \<in> set (fst (walkDir EXCLUDED_DIRS (\<lambda>_. True) [] tree))
                \<and> m = Blocked (relative q) \<and> \<not> under_excluded EXCLUDED_DIRS q)"
      using visited_not_excluded [of _ _ EXCLUDED_DIRS "\<lambda>_. True" tree] by blast
  qed
  have c5: "\<forall>m \<in> set (added st' (check_file_sizes tree st')).
         \<exists>q z. (q, z) \<in> set (fst (walkDir EXCLUDED_DIRS_size (\<lambda>_. True) [] tree))
              \<and> (m = VideoNotAllowed (relative q) \<or> (\<exists>a b. m = ExceedsLimit (relative q) a b))
              \<and> \<not> under_excluded EXCLUDED_DIRS_size q"
  proof
    fix m assume "m \<in> set (added st' (check_file_sizes tree st'))"
    with s have "\<exists>(q, z) \<in> set (fst (walkDir EXCLUDED_DIRS_size (\<lambda>_. True) [] tree)).
            m = VideoNotAllowed (relative q) \<or> (\<exists>a b. m = ExceedsLimit (relative q) a b)"
      by blast
    then show "\<exists>q z. (q, z) \<in> set (fst (walkDir EXCLUDED_DIRS_size (\<lambda>_. True) [] tree))
              \<and> (m = VideoNotAllowed (relative q) \<or> (\<exists>a b. m = ExceedsLimit (relative q) a b))
              \<and> \<not> under_excluded EXCLUDED_DIRS_size q"
      using visited_not_excluded [of _ _ EXCLUDED_DIRS_size "\<lambda>_. True" tree] by blast
  qed
  have c7: "\<forall>m \<in> set (added st'' (fix_common_issues tree st'')).
         \<exists>q z. (q, z) \<in> set (fst (walkDir PATTERNS_exclude fix_included [] tree))
              \<and> (m = Fixed (relative q) \<or> m = CouldNotProcess (relative q))
              \<and> \<not> under_excluded PATTERNS_exclude q"
  proof
    fix m assume "m \<in> set (added st'' (fix_common_issues tree st''))"
    with f have "\<exists>(q, z) \<in> set (fst (walkDir PATTERNS_exclude fix_included [] tree)).
            m = Fixed (relative q) \<or> m = CouldNotProcess (relative q)"
      by blast
    then show "\<exists>q z. (q, z) \<in> set (fst (walkDir PATTERNS_exclude fix_included [] tree))
              \<and> (m = Fixed (relative q) \<or> m = CouldNotProcess (relative q))
              \<and> \<not> under_excluded PATTERNS_exclude q"
      using visited_not_excluded [of _ _ PATTERNS_exclude fix_included tree] by blast
  qed
  have c8: "names_ok tree \<and> (\<forall>n \<in> set p. slash_free n) \<longrightarrow>
        (under_excluded EXCLUDED_DIRS p
           \<longrightarrow> Blocked (relative p) \<notin> set (added st (check_blocked_files tree st)))
      \<and> (under_excluded EXCLUDED_DIRS_size p
           \<longrightarrow> VideoNotAllowed (relative p) \<notin> set (added st' (check_file_sizes tree st'))
               \<and> (\<forall>a b. ExceedsLimit (relative p) a b
                          \<notin> set (added st' (check_file_sizes tree st'))))
      \<and> (under_excluded PATTERNS_exclude p
           \<longrightarrow> Fixed (relative p) \<notin> set (added st'' (fix_common_issues tree st''))
               \<and> CouldNotProcess (relative p) \<notin> set (added st'' (fix_common_issues tree st'')))"
  proof (intro impI conjI allI)
    assume ok: "names_ok tree \<and> (\<forall>n \<in> set p. slash_free n)"
    {
      assume u: "under_excluded EXCLUDED_DIRS p"
      show "Blocked (relative p) \<notin> set (added st (check_blocked_files tree st))"
      proof
        assume "Blocked (relative p) \<in> set (added st (check_blocked_files tree st))"
        with c3 obtain q z where "(q, z) \<in> set (fst (walkDir EXCLUDED_DIRS (\<lambda>_. True) [] tree))"
            "relative p = relative q"
          by blast
        with excluded_not_named [of tree p EXCLUDED_DIRS q z "\<lambda>_. True"] ok u
        show False by simp
      qed
    next
      assume u: "under_excluded EXCLUDED_DIRS_size p"
      show "VideoNotAllowed (relative p) \<notin> set (added st' (check_file_sizes tree st'))"
      proof
        assume "VideoNotAllowed (relative p) \<in> set (added st' (check_file_sizes tree st'))"
        with c5 obtain q z where "(q, z) \<in> set (fst (walkDir EXCLUDED_DIRS_size (\<lambda>_. True) [] tree))"
            "relative p = relative q"
          by blast
        with excluded_not_named [of tree p EXCLUDED_DIRS_size q z "\<lambda>_. True"] ok u
        show False by simp
      qed
      fix a b
      show "ExceedsLimit (relative p) a b \<notin> set (added st' (check_file_sizes tree st'))"
      proof
        assume "ExceedsLimit (relative p) a b \<in> set (added st' (check_file_sizes tree st'))"
        with c5 obtain q z where "(q, z) \<in> set (fst (walkDir EXCLUDED_DIRS_size (\<lambda>_. True) [] tree))"
            "relative p = relative q"
          by blast
        with excluded_not_named [of tree p EXCLUDED_DIRS_size q z "\<lambda>_. True"] ok u
        show False by simp
      qed
    next
      assume u: "under_excluded PATTERNS_exclude p"
      show "Fixed (relative p) \<notin> set (added st'' (fix_common_issues tree st''))"
      proof
        assume "Fixed (relative p) \<in> set (added st'' (fix_common_issues tree st''))"
        with c7 obtain q z where "(q, z) \<in> set (fst (walkDir PATTERNS_exclude fix_included [] tree))"
            "relative p = relative q"
          by blast
        with excluded_not_named [of tree p PATTERNS_exclude q z fix_included] ok u
        show False by simp
      qed
      show "CouldNotProcess (relative p) \<notin> set (added st'' (fix_common_issues tree st''))"
      proof
        assume "CouldNotProcess (relative p) \<in> set (added st'' (fix_common_issues tree st''))"
        with c7 obtain q z where "(q, z) \<in> set (fst (walkDir PATTERNS_exclude fix_included [] tree))"
            "relative p = relative q"
          by blast
        with excluded_not_named [of tree p PATTERNS_exclude q z fix_included] ok u
        show False by simp
      qed
    }
  qed
  show ?thesis using c1 b s f c3 c5 c7 c8 by (intro conjI) blast+
qed

theorem excluded_directories_pruned_witness:
  "fst (walkDir EXCLUDED_DIRS (\<lambda>_. True) [] sample_tree) = [([''.env''], 10), ([''src'', ''a.js''], 3)]
   \<and> ([''node_modules'', ''deep'', ''.env''], 5) \<notin> set (fst (walkDir EXCLUDED_DIRS (\<lambda>_. True) [] sample_tree))
   \<and> ([''src'', ''build'', ''out.js''], 7) \<notin> set (fst (walkDir EXCLUDED_DIRS (\<lambda>_. True) [] sample_tree))
   \<and> added fresh_run (check_blocked_files env_tree fresh_run) = [Blocked ''.env'', AddToGitignore]
   \<and> Blocked ''node_modules/deep/.env'' \<notin> set (added fresh_run (check_blocked_files env_tree fresh_run))
   \<and> added fresh_run (check_file_sizes video_tree fresh_run) = [VideoNotAllowed ''clip.mp4'']
   \<and> VideoNotAllowed ''src/.cache/clip.mp4''
       \<notin> set (added fresh_run (check_file_sizes video_tree fresh_run))
   \<and> added text_disk (fix_common_issues text_tree text_disk) = [Fixed ''a.md'']
   \<and> Fixed ''dist/out.js'' \<notin> set (added text_disk (fix_common_issues text_tree text_disk))
   \<and> disk (fix_common_issues text_tree text_disk) [''dist'', ''out.js''] = Some ''x ''"
proof -
  have a: "under_excluded EXCLUDED_DIRS [''node_modules'', ''deep'', ''.env'']"
    by (simp add: under_excluded_def EXCLUDED_DIRS_def)
  have b: "under_excluded EXCLUDED_DIRS [''src'', ''build'', ''out.js'']"
    by (simp add: under_excluded_def EXCLUDED_DIRS_def)
  have c: "([''node_modules'', ''deep'', ''.env''], 5) \<notin> set (fst (walkDir EXCLUDED_DIRS (\<lambda>_. True) [] sample_tree))"
    using excluded_directories_pruned [of EXCLUDED_DIRS "[''node_modules'', ''deep'', ''.env'']"
        5 "\<lambda>_. True" sample_tree] a by blast
  have d: "([''src'', ''build'', ''out.js''], 7) \<notin> set (fst (walkDir EXCLUDED_DIRS (\<lambda>_. True) [] sample_tree))"
    using excluded_directories_pruned [of EXCLUDED_DIRS "[''src'', ''build'', ''out.js'']"
        7 "\<lambda>_. True" sample_tree] b by blast
  have n1: "names_ok env_tree \<and> (\<forall>n \<in> set [''node_modules'', ''deep'', ''.env'']. slash_free n)"
    by (simp add: env_tree_def slash_free_def)
  have e: "Blocked ''node_modules/deep/.env''
             \<notin> set (added fresh_run (check_blocked_files env_tree fresh_run))"
    using excluded_directories_pruned [of _ "[''node_modules'', ''deep'', ''.env'']" _ _ env_tree
        fresh_run] n1 a
    by simp
  have n2: "names_ok video_tree \<and> (\<forall>n \<in> set [''src'', ''.cache'', ''clip.mp4'']. slash_free n)"
    by (simp add: video_tree_def slash_free_def)
  have u2: "under_excluded EXCLUDED_DIRS_size [''src'', ''.cache'', ''clip.mp4'']"
    by (simp add: under_excluded_def EXCLUDED_DIRS_size_def)
  have f: "VideoNotAllowed ''src/.cache/clip.mp4''
             \<notin> set (added fresh_run (check_file_sizes video_tree fresh_run))"
    using excluded_directories_pruned [of _ "[''src'', ''.cache'', ''clip.mp4'']" _ _ video_tree
        _ fresh_run] n2 u2
    by simp
  have n3: "names_ok text_tree \<and> (\<forall>n \<in> set [''dist'', ''out.js'']. slash_free n)"
    by (simp add: text_tree_def slash_free_def)
  have u3: "under_excluded PATTERNS_exclude [''dist'', ''out.js'']"
    by (simp add: under_excluded_def PATTERNS_exclude_def)
  have g: "Fixed ''dist/out.js'' \<notin> set (added text_disk (fix_common_issues text_tree text_disk))"
    using excluded_directories_pruned [of _ "[''dist'', ''out.js'']" _ _ text_tree
        _ _ text_disk] n3 u3
    by simp
  have h: "added fresh_run (check_blocked_files env_tree fresh_run) = [Blocked ''.env'', AddToGitignore]"
    unfolding env_tree_run by (simp add: added_def fresh_run_def)
  have i: "added fresh_run (check_file_sizes video_tree fresh_run) = [VideoNotAllowed ''clip.mp4'']"
    unfolding video_tree_run by (simp add: added_def fresh_run_def)
  have j: "added text_disk (fix_common_issues text_tree text_disk) = [Fixed ''a.md'']
           \<and> disk (fix_common_issues text_tree text_disk) [''dist'', ''out.js''] = Some ''x ''"
    unfolding text_tree_run by (simp add: added_def text_disk_def fresh_run_def)
  show ?thesis using c d e f g h i j by (simp add: sample_walk)
qed

section \<open>Properties of the frontmatter validator\<close>

lemma index_of_None: "index_of s t = None \<longleftrightarrow> \<not> sublist t s"
  by (induction s) (auto simp: sublist_Cons_right)

lemma sublist_of_drop: "sublist t (drop n s) \<Longrightarrow> sublist t s"
proof -
  assume "sublist t (drop n s)"
  then obtain ps ss where "drop n s = ps @ t @ ss" by (auto simp: sublist_def)
  then have "s = (take n s @ ps) @ t @ ss" by (metis append_take_drop_id append_assoc)
  then show ?thesis unfolding sublist_def by blast
qed

lemma indexOf_None: "\<not> sublist t s \<Longrightarrow> indexOf s t position = None"
  using sublist_of_drop [of t position s] by (auto simp: indexOf_def index_of_None)

lemma frontmatterStr_NoEnd:
  "startsWith content ''---'' \<Longrightarrow> \<not> sublist (LF # ''---'' @ [LF]) content \<Longrightarrow>
     frontmatterStr content = Inl NoEnd"
  by (simp add: frontmatterStr_def indexOf_None)

lemma unclosed_file_hyps:
  "startsWith unclosed_file ''---'' \<and> \<not> sublist (LF # ''---'' @ [LF]) unclosed_file"
  by (simp add: unclosed_file_def startsWith_def index_of_None [symmetric])

lemma missing_of_required:
  "get fm ''name'' = Inr name \<Longrightarrow> get fm ''description'' = Inr description \<Longrightarrow>
     missing_of fm [''name'', ''description''] =
       Inr ((if truthy name then [] else [''name''])
            @ (if truthy description then [] else [''description'']))"
  by simp

lemma field_of_get: "get fm k = Inr v \<Longrightarrow> field_of fm k = v"
  by (simp add: field_of_def)

lemma validate_file_parsed:
  assumes "frontmatterStr content = Inr str" and "parse str = Inr fm"
    and "get fm ''name'' = Inr name" and "get fm ''description'' = Inr description"
  shows "validate_file parse p content st =
     (if \<not> truthy name \<or> \<not> truthy description
      then validate_error st (MissingRequiredFields (relative p)
             ((if truthy name then [] else [''name''])
              @ (if truthy description then [] else [''description''])))
      else if \<not> is_string name \<or> is_blank name
      then validate_error st (NameNotNonEmptyString (relative p))
      else if \<not> is_string description \<or> is_blank description
      then validate_error st (DescriptionNotNonEmptyString (relative p))
      else st\<lparr>fileCount := fileCount st + 1, console := console st @ [FrontmatterValid (relative p)]\<rparr>)"
  using assms
  by (simp add: validate_file_def Let_def validate_error_def field_of_get
        del: missing_of.simps add: missing_of_required)

lemma frontmatterStr_md_file_examples:
  "frontmatterStr (md_file empty_name) = Inr empty_name"
  "frontmatterStr (md_file blank_name_only) = Inr blank_name_only"
  "frontmatterStr (md_file blank_name) = Inr blank_name"
  "frontmatterStr (md_file number_name) = Inr number_name"
  "frontmatterStr (md_file shared_first) = Inr shared_first"
  "frontmatterStr (md_file shared_second) = Inr shared_second"
  "frontmatterStr (md_file list_name) = Inr list_name"
  "frontmatterStr (md_file zero_name) = Inr zero_name"
  "frontmatterStr (md_file []) = Inr []"
  by (simp_all add: frontmatterStr_def md_file_def startsWith_def indexOf_def substring_def
        empty_name_def blank_name_only_def blank_name_def number_name_def shared_first_def
        shared_second_def list_name_def zero_name_def)

lemma sample_parse_examples:
  "sample_parse empty_name = Inr (JObj [(''name'', JStr ''''), (''description'', JStr ''d'')])"
  "sample_parse blank_name_only = Inr (JObj [(''name'', JStr ''  '')])"
  "sample_parse blank_name = Inr (JObj [(''name'', JStr ''  ''), (''description'', JStr ''d'')])"
  "sample_parse number_name = Inr (JObj [(''name'', JNum 5), (''description'', JStr ''d'')])"
  "sample_parse shared_first = Inr (JObj [(''name'', JStr ''shared''), (''description'', JStr ''first'')])"
  "sample_parse shared_second = Inr (JObj [(''name'', JStr ''shared''), (''description'', JStr ''second'')])"
  "sample_parse list_name = Inr (JObj [(''name'', JArr [JStr ''x'']), (''description'', JStr ''d'')])"
  "sample_parse zero_name = Inr (JObj [(''name'', JNum 0), (''description'', JStr ''d'')])"
  "sample_parse [] = Inr JNull"
  by (simp_all add: sample_parse_def
        empty_name_def blank_name_only_def blank_name_def number_name_def shared_first_def
        shared_second_def list_name_def zero_name_def)

lemma validate_file_null:
  assumes "frontmatterStr content = Inr str" and "parse str = Inr frontmatter"
    and "get frontmatter ''name'' = Inl message"
  shows "validate_file parse p content st = validate_error st (InvalidYAML (relative p) message)"
  using assms by (simp add: validate_file_def Let_def validate_error_def)

lemma get_Inl: "(\<exists>message. get v key = Inl message) \<longleftrightarrow> v = JNull \<or> v = JUndefined"
  by (cases v) auto

lemma get_field_of: "v \<noteq> JNull \<Longrightarrow> v \<noteq> JUndefined \<Longrightarrow> get v key = Inr (field_of v key)"
  by (cases v) (auto simp: field_of_def)

text \<open>
  Claim C7. A file that starts with the opening delimiter and holds no closing delimiter (no
  line feed, three dashes, line feed) gets the missing-end-delimiter error from the frontmatter
  validator and nothing else: one file counted, one line, one error, whatever the parser would
  return.
\<close>

theorem missing_end_delimiter_only:
  assumes "startsWith content ''---''"
    and "\<not> sublist (LF # ''---'' @ [LF]) content"
  shows "validate_file parse p content st =
           st\<lparr>fileCount := fileCount st + 1,
              console := console st @ [MissingFrontmatterEnd (relative p)],
              counter := counter st + 1\<rparr>"
  using frontmatterStr_NoEnd [OF assms] by (simp add: validate_file_def Let_def)

theorem missing_end_delimiter_only_witness:
  "validate_file (\<lambda>str. Inl ''not reached'') [''agents'', ''a.md''] unclosed_file fresh_run =
     fresh_run\<lparr>fileCount := 1, console := [MissingFrontmatterEnd ''agents/a.md''], counter := 1\<rparr>"
  using missing_end_delimiter_only [of unclosed_file "\<lambda>str. Inl ''not reached''" "[''agents'', ''a.md'']" fresh_run]
    unclosed_file_hyps
  by (simp add: fresh_run_def)

text \<open>
  Claim C8 says that a present value that is an empty string, or a value that is not a string,
  gets the invalid-field error of its key. The test for missing fields comes first and takes
  every falsy value as missing: the empty name is reported as a missing required field. It
  also returns at the first error: a name of blanks beside an absent description is reported
  as a missing \<open>description\<close> only.
\<close>

theorem invalid_field_type_counterexample:
  "frontmatterStr (md_file empty_name) = Inr empty_name
   \<and> sample_parse empty_name = Inr (JObj [(''name'', JStr ''''), (''description'', JStr ''d'')])
   \<and> validate_file sample_parse [''agents'', ''a.md''] (md_file empty_name) fresh_run =
       fresh_run\<lparr>fileCount := 1,
                 console := [MissingRequiredFields ''agents/a.md'' [''name'']],
                 counter := 1\<rparr>
   \<and> frontmatterStr (md_file blank_name_only) = Inr blank_name_only
   \<and> sample_parse blank_name_only = Inr (JObj [(''name'', JStr ''  '')])
   \<and> validate_file sample_parse [''agents'', ''a.md''] (md_file blank_name_only) fresh_run =
       fresh_run\<lparr>fileCount := 1,
                 console := [MissingRequiredFields ''agents/a.md'' [''description'']],
                 counter := 1\<rparr>"
  by (simp add: frontmatterStr_md_file_examples sample_parse_examples validate_file_def Let_def
        fresh_run_def field_of_def)

text \<open>
  Claim C8, amended. For a file whose delimiters are found and whose frontmatter parses: when
  it parses to \<open>null\<close> or \<open>undefined\<close> (an empty frontmatter), the file gets the invalid-YAML
  error. Otherwise, \<open>name\<close> and \<open>description\<close> being the values read from the parsed
  frontmatter (\<open>undefined\<close> for an absent key): when one of them is falsy (absent, null, false,
  zero, NaN or the empty string) the file gets the missing-required-fields error, which lists
  the falsy ones; when both are truthy, a \<open>name\<close> that is not a string or is a string of
  white space gets the invalid-field error of \<open>name\<close>; the name being a string with more than
  white space, such a \<open>description\<close> gets the invalid-field error of \<open>description\<close>; and when
  both are strings with more than white space the file is valid. The errors are different
  lines, and a file gets one of them.
\<close>

theorem invalid_field_type_after_required:
  assumes "frontmatterStr content = Inr str" and "parse str = Inr frontmatter"
    and "name = field_of frontmatter ''name''"
    and "description = field_of frontmatter ''description''"
  shows "(frontmatter = JNull \<or> frontmatter = JUndefined
          \<longrightarrow> (\<exists>message. validate_file parse p content st
                          = validate_error st (InvalidYAML (relative p) message)))
       \<and> (frontmatter \<noteq> JNull \<and> frontmatter \<noteq> JUndefined
          \<longrightarrow> (\<not> truthy name \<or> \<not> truthy description
                \<longrightarrow> validate_file parse p content st
                      = validate_error st (MissingRequiredFields (relative p)
                          ((if truthy name then [] else [''name''])
                           @ (if truthy description then [] else [''description'']))))
              \<and> (truthy name \<and> truthy description \<and> (\<not> is_string name \<or> is_blank name)
                \<longrightarrow> validate_file parse p content st
                      = validate_error st (NameNotNonEmptyString (relative p)))
              \<and> (truthy name \<and> truthy description \<and> is_string name \<and> \<not> is_blank name
                  \<and> (\<not> is_string description \<or> is_blank description)
                \<longrightarrow> validate_file parse p content st
                      = validate_error st (DescriptionNotNonEmptyString (relative p)))
              \<and> (truthy name \<and> truthy description \<and> is_string name \<and> \<not> is_blank name
                  \<and> is_string description \<and> \<not> is_blank description
                \<longrightarrow> validate_file parse p content st
                      = st\<lparr>fileCount := fileCount st + 1,
                           console := console st @ [FrontmatterValid (relative p)]\<rparr>))"
proof (intro conjI impI)
  assume "frontmatter = JNull \<or> frontmatter = JUndefined"
  then obtain message where "get frontmatter ''name'' = Inl message"
    using get_Inl [of frontmatter "''name''"] by blast
  then show "\<exists>message. validate_file parse p content st
                          = validate_error st (InvalidYAML (relative p) message)"
    using validate_file_null [where parse = parse and str = str, OF assms(1,2)] by blast
next
  assume d: "frontmatter \<noteq> JNull \<and> frontmatter \<noteq> JUndefined"
  then have g: "get frontmatter ''name'' = Inr name"
      "get frontmatter ''description'' = Inr description"
    using assms(3,4) by (simp_all add: get_field_of)
  note v = validate_file_parsed [where parse = parse and str = str, OF assms(1,2) g, of p st]
  {
    assume "\<not> truthy name \<or> \<not> truthy description"
    then show "validate_file parse p content st
                      = validate_error st (MissingRequiredFields (relative p)
                          ((if truthy name then [] else [''name''])
                           @ (if truthy description then [] else [''description''])))"
      using v by simp
  next
    assume "truthy name \<and> truthy description \<and> (\<not> is_string name \<or> is_blank name)"
    then show "validate_file parse p content st
                      = validate_error st (NameNotNonEmptyString (relative p))"
      using v by simp
  next
    assume "truthy name \<and> truthy description \<and> is_string name \<and> \<not> is_blank name
                  \<and> (\<not> is_string description \<or> is_blank description)"
    then show "validate_file parse p content st
                      = validate_error st (DescriptionNotNonEmptyString (relative p))"
      using v by simp
  next
    assume "truthy name \<and> truthy description \<and> is_string name \<and> \<not> is_blank name
                  \<and> is_string description \<and> \<not> is_blank description"
    then show "validate_file parse p content st
                      = st\<lparr>fileCount := fileCount st + 1,
                           console := console st @ [FrontmatterValid (relative p)]\<rparr>"
      using v by simp
  }
qed

theorem invalid_field_type_after_required_witness:
  "validate_file sample_parse [''skills'', ''s.md''] (md_file blank_name) fresh_run =
     fresh_run\<lparr>fileCount := 1, console := [NameNotNonEmptyString ''skills/s.md''], counter := 1\<rparr>
   \<and> validate_file sample_parse [''skills'', ''s.md''] (md_file number_name) fresh_run =
     fresh_run\<lparr>fileCount := 1, console := [NameNotNonEmptyString ''skills/s.md''], counter := 1\<rparr>
   \<and> validate_file sample_parse [''skills'', ''s.md''] (md_file empty_name) fresh_run =
     fresh_run\<lparr>fileCount := 1, console := [MissingRequiredFields ''skills/s.md'' [''name'']], counter := 1\<rparr>
   \<and> validate_file sample_parse [''skills'', ''s.md''] (md_file shared_first) fresh_run =
     fresh_run\<lparr>fileCount := 1, console := [FrontmatterValid ''skills/s.md'']\<rparr>
   \<and> validate_file sample_parse [''skills'', ''s.md''] (md_file []) fresh_run =
     fresh_run\<lparr>fileCount := 1,
               console := [InvalidYAML ''skills/s.md'' ''Cannot read properties of null''],
               counter := 1\<rparr>"
proof -
  have b: "is_blank (JStr ''  '')" "\<not> is_blank (JStr ''shared'')" "\<not> is_blank (JStr ''first'')"
    by (simp_all add: trim_def trimRight_def is_white_space_def)
  have a1: "validate_file sample_parse [''skills'', ''s.md''] (md_file blank_name) fresh_run =
     fresh_run\<lparr>fileCount := 1, console := [NameNotNonEmptyString ''skills/s.md''], counter := 1\<rparr>"
    using invalid_field_type_after_required [where parse = sample_parse and str = blank_name,
        OF frontmatterStr_md_file_examples(3) sample_parse_examples(3) refl refl,
        of "[''skills'', ''s.md'']" fresh_run] b
    by (simp add: validate_error_def fresh_run_def field_of_def)
  have a2: "validate_file sample_parse [''skills'', ''s.md''] (md_file number_name) fresh_run =
     fresh_run\<lparr>fileCount := 1, console := [NameNotNonEmptyString ''skills/s.md''], counter := 1\<rparr>"
    using invalid_field_type_after_required [where parse = sample_parse and str = number_name,
        OF frontmatterStr_md_file_examples(4) sample_parse_examples(4) refl refl,
        of "[''skills'', ''s.md'']" fresh_run]
    by (simp add: validate_error_def fresh_run_def field_of_def)
  have a3: "validate_file sample_parse [''skills'', ''s.md''] (md_file empty_name) fresh_run =
     fresh_run\<lparr>fileCount := 1, console := [MissingRequiredFields ''skills/s.md'' [''name'']], counter := 1\<rparr>"
    using invalid_field_type_after_required [where parse = sample_parse and str = empty_name,
        OF frontmatterStr_md_file_examples(1) sample_parse_examples(1) refl refl,
        of "[''skills'', ''s.md'']" fresh_run]
    by (simp add: validate_error_def fresh_run_def field_of_def)
  have a4: "validate_file sample_parse [''skills'', ''s.md''] (md_file shared_first) fresh_run =
     fresh_run\<lparr>fileCount := 1, console := [FrontmatterValid ''skills/s.md'']\<rparr>"
    using invalid_field_type_after_required [where parse = sample_parse and str = shared_first,
        OF frontmatterStr_md_file_examples(5) sample_parse_examples(5) refl refl,
        of "[''skills'', ''s.md'']" fresh_run] b
    by (simp add: validate_error_def fresh_run_def field_of_def)
  have "\<exists>message. validate_file sample_parse [''skills'', ''s.md''] (md_file []) fresh_run
          = validate_error fresh_run (InvalidYAML (relative [''skills'', ''s.md'']) message)"
    using invalid_field_type_after_required [where parse = sample_parse and str = "[]",
        OF frontmatterStr_md_file_examples(9) sample_parse_examples(9) refl refl,
        of "[''skills'', ''s.md'']" fresh_run]
    by simp
  moreover have "validate_file sample_parse [''skills'', ''s.md''] (md_file []) fresh_run
          = validate_error fresh_run (InvalidYAML (relative [''skills'', ''s.md''])
              ''Cannot read properties of null'')"
    by (rule validate_file_null [where parse = sample_parse and str = "[]",
          OF frontmatterStr_md_file_examples(9) sample_parse_examples(9)]) simp
  ultimately have a5: "validate_file sample_parse [''skills'', ''s.md''] (md_file []) fresh_run =
     fresh_run\<lparr>fileCount := 1,
               console := [InvalidYAML ''skills/s.md'' ''Cannot read properties of null''],
               counter := 1\<rparr>"
    by (simp add: validate_error_def fresh_run_def)
  show ?thesis using a1 a2 a3 a4 a5 by blast
qed


section \<open>Properties of the consistency validator\<close>

lemma verify_file_disk [simp]: "disk (verify_file parse p c st) = disk st"
  by (simp add: verify_file_def Let_def split: sum.splits delimiter_error.splits)

lemma verify_file_names:
  "set (allNames (verify_file parse p c st)) =
     set (allNames st) \<union> (case declared_name parse c of None \<Rightarrow> {} | Some n \<Rightarrow> {n})"
  by (auto simp: verify_file_def declared_name_def Let_def Set_has_def
        split: sum.splits delimiter_error.splits if_splits)

lemma verify_file_duplicate:
  "declared_name parse c = Some n \<Longrightarrow> Set_has (allNames st) n \<Longrightarrow>
     verify_file parse p c st =
       st\<lparr>console := console st @ [DuplicateName (relative p) n], counter := counter st + 1\<rparr>"
  by (auto simp: verify_file_def declared_name_def Let_def
        split: sum.splits delimiter_error.splits if_splits)

lemma verify_file_first:
  "declared_name parse c = Some n \<Longrightarrow> \<not> Set_has (allNames st) n \<Longrightarrow>
     \<exists>new. console (verify_file parse p c st) = console st @ new
          \<and> \<not> list_ex is_duplicate_msg new
          \<and> allNames (verify_file parse p c st) = allNames st @ [n]"
  by (auto simp: verify_file_def declared_name_def Let_def
        split: sum.splits delimiter_error.splits if_splits)

lemma verify_files_disk [simp]: "disk (verify_files parse qs st) = disk st"
  by (induction qs arbitrary: st) (auto split: option.splits)

lemma verify_files_append:
  "\<forall>q \<in> set qs. disk st q \<noteq> None \<Longrightarrow>
     verify_files parse (qs @ rs) st = verify_files parse rs (verify_files parse qs st)"
  by (induction qs arbitrary: st) (auto split: option.splits)

lemma verify_files_single:
  "disk st q = Some c \<Longrightarrow> verify_files parse [q] st = verify_file parse q c st"
  by simp

lemma verify_files_names:
  "\<forall>q \<in> set qs. disk st q \<noteq> None \<Longrightarrow>
     set (allNames (verify_files parse qs st)) =
       set (allNames st)
       \<union> {n. \<exists>q \<in> set qs. \<exists>c. disk st q = Some c \<and> declared_name parse c = Some n}"
proof (induction qs arbitrary: st)
  case Nil then show ?case by simp
next
  case (Cons q qs)
  then obtain c where c: "disk st q = Some c" by auto
  have r: "\<forall>q' \<in> set qs. disk (verify_file parse q c st) q' \<noteq> None" using Cons.prems by simp
  show ?case
    using Cons.IH [OF r] c
    by (auto simp: verify_file_names split: option.splits)
qed

lemma verify_file_console_grows: "set (console st) \<subseteq> set (console (verify_file parse p c st))"
  by (auto simp: verify_file_def Let_def split: sum.splits delimiter_error.splits)

lemma verify_files_console_grows:
  "set (console st) \<subseteq> set (console (verify_files parse qs st))"
proof (induction qs arbitrary: st)
  case Nil then show ?case by simp
next
  case (Cons q qs)
  show ?case
  proof (cases "disk st q")
    case None then show ?thesis by simp
  next
    case (Some c)
    then show ?thesis
      using Cons [of "verify_file parse q c st"] verify_file_console_grows [of st parse q c]
      by auto
  qed
qed


lemma verify_file_object:
  "is_object n \<Longrightarrow> \<not> Set_has names n"
  by (simp add: Set_has_def)

lemma two_dirs_files:
  "md_files two_dirs = ([[''agents'', ''a.md'']] @ [''skills'', ''b.md''] # [], True)"
  by (simp add: md_files_def two_dirs_def endsWith_def suffix_to_prefix)

lemma unlistable_skills_files: "md_files unlistable_skills = ([[''agents'', ''a.md'']], False)"
  by (simp add: md_files_def unlistable_skills_def endsWith_def suffix_to_prefix)

lemma shared_declared:
  "declared_name sample_parse (md_file shared_first) = Some (JStr ''shared'')"
  "declared_name sample_parse (md_file shared_second) = Some (JStr ''shared'')"
  by (simp_all add: declared_name_def frontmatterStr_md_file_examples sample_parse_examples)

lemma two_files_first:
  "verify_files sample_parse [[''agents'', ''a.md'']] two_files =
     two_files\<lparr>allNames := [JStr ''shared''],
               console := [ModelRecommended ''agents/a.md'', Consistent ''agents/a.md'']\<rparr>"
  by (simp add: two_files_def fresh_run_def verify_file_def Let_def field_of_def
        frontmatterStr_md_file_examples sample_parse_examples Set_has_def)

lemma unlistable_skills_run:
  "verify_agent_consistency sample_parse unlistable_skills two_files =
     two_files\<lparr>allNames := [JStr ''shared''],
               console := [ModelRecommended ''agents/a.md'', Consistent ''agents/a.md''],
               aborted := True\<rparr>"
  unfolding verify_agent_consistency_def unlistable_skills_files Let_def prod.case two_files_first
  by (simp add: two_files_def fresh_run_def)

text \<open>
  Claim C4 says that of the files that declare the same \<open>name\<close> value every one after the first
  is reported as a duplicate. The names are kept in a JavaScript \<open>Set\<close>, which compares a
  sequence or a mapping by identity: two files whose name is the same YAML sequence \<open>[x]\<close> are
  both consistent, with no duplicate line and no error. And the test for a missing name comes
  before the test for a duplicate: two files whose name is the number zero both get the
  missing-name error, and neither a duplicate line.
\<close>

theorem duplicate_names_counterexample:
  "frontmatterStr (md_file list_name) = Inr list_name
   \<and> sample_parse list_name = Inr (JObj [(''name'', JArr [JStr ''x'']), (''description'', JStr ''d'')])
   \<and> verify_agent_consistency sample_parse two_dirs list_files =
       list_files\<lparr>allNames := [JArr [JStr ''x''], JArr [JStr ''x'']],
                  console := [ModelRecommended ''agents/a.md'', Consistent ''agents/a.md'',
                              LocationRecommended ''skills/b.md'', Consistent ''skills/b.md'']\<rparr>
   \<and> frontmatterStr (md_file zero_name) = Inr zero_name
   \<and> sample_parse zero_name = Inr (JObj [(''name'', JNum 0), (''description'', JStr ''d'')])
   \<and> verify_agent_consistency sample_parse two_dirs zero_files =
       zero_files\<lparr>console := [MissingNameField ''agents/a.md'', MissingNameField ''skills/b.md''],
                  counter := 2\<rparr>"
  unfolding verify_agent_consistency_def two_dirs_files
  by (simp add: frontmatterStr_md_file_examples sample_parse_examples list_files_def
        zero_files_def fresh_run_def verify_file_def Let_def field_of_def Set_has_def)

text \<open>
  Claim C4, amended. Over one run of the consistency validator, on the files of \<open>agents\<close>,
  \<open>skills\<close> and \<open>commands\<close> taken as one sequence in the order they are scanned (the set of
  names is one for the three directories): a file that the run reaches with an empty set at
  its start and every file before it read, whose delimiters are found, whose frontmatter
  parses and whose \<open>name\<close> is truthy, is reported as a duplicate, with one error and one line
  that stays in the console of the run, exactly when its name is a scalar (a string, a number
  or a boolean) and a file scanned before it, in any of the directories, declared the same
  name. Otherwise (no file before it declared the name, or the name is a sequence or a mapping)
  it gets no duplicate line and its name is added to the set.
\<close>

theorem duplicate_names_after_first:
  assumes "fst (md_files listing) = pre @ p # post"
    and "\<forall>q \<in> set pre. disk st q \<noteq> None"
    and "disk st p = Some content"
    and "declared_name parse content = Some n"
    and "allNames st = []"
    and "before = verify_files parse pre st"
    and "earlier \<longleftrightarrow> (\<exists>q \<in> set pre. \<exists>c. disk st q = Some c \<and> declared_name parse c = Some n)"
  shows "console (verify_agent_consistency parse listing st)
           = console (verify_files parse post (verify_file parse p content before))
       \<and> (\<not> is_object n \<and> earlier
            \<longrightarrow> verify_file parse p content before
                  = before\<lparr>console := console before @ [DuplicateName (relative p) n],
                           counter := counter before + 1\<rparr>
                \<and> DuplicateName (relative p) n
                    \<in> set (console (verify_agent_consistency parse listing st)))
       \<and> (is_object n \<or> \<not> earlier
            \<longrightarrow> (\<exists>new. console (verify_file parse p content before) = console before @ new
                      \<and> \<not> list_ex is_duplicate_msg new)
                \<and> allNames (verify_file parse p content before) = allNames before @ [n])"
proof -
  have names: "set (allNames before)
      = {m. \<exists>q \<in> set pre. \<exists>c. disk st q = Some c \<and> declared_name parse c = Some m}"
    using verify_files_names [OF assms(2), of parse] assms(5,6) by simp
  have "verify_files parse (fst (md_files listing)) st
           = verify_files parse post (verify_file parse p content before)"
    using verify_files_append [OF assms(2), of parse "p # post"] assms(1,3,6) by simp
  then have run: "console (verify_agent_consistency parse listing st)
           = console (verify_files parse post (verify_file parse p content before))"
    by (cases "md_files listing") (simp add: verify_agent_consistency_def Let_def)
  have dup: "\<not> is_object n \<and> earlier
            \<longrightarrow> verify_file parse p content before
                  = before\<lparr>console := console before @ [DuplicateName (relative p) n],
                           counter := counter before + 1\<rparr>
                \<and> DuplicateName (relative p) n
                    \<in> set (console (verify_agent_consistency parse listing st))"
  proof
    assume "\<not> is_object n \<and> earlier"
    then have "Set_has (allNames before) n" using names assms(7) by (simp add: Set_has_def)
    then have step: "verify_file parse p content before
                  = before\<lparr>console := console before @ [DuplicateName (relative p) n],
                           counter := counter before + 1\<rparr>"
      using verify_file_duplicate [OF assms(4)] by blast
    then have "DuplicateName (relative p) n \<in> set (console (verify_file parse p content before))"
      by simp
    then have "DuplicateName (relative p) n
                 \<in> set (console (verify_files parse post (verify_file parse p content before)))"
      using verify_files_console_grows by blast
    with step run show "verify_file parse p content before
                  = before\<lparr>console := console before @ [DuplicateName (relative p) n],
                           counter := counter before + 1\<rparr>
                \<and> DuplicateName (relative p) n
                    \<in> set (console (verify_agent_consistency parse listing st))"
      by simp
  qed
  have first: "is_object n \<or> \<not> earlier
            \<longrightarrow> (\<exists>new. console (verify_file parse p content before) = console before @ new
                      \<and> \<not> list_ex is_duplicate_msg new)
                \<and> allNames (verify_file parse p content before) = allNames before @ [n]"
  proof
    assume "is_object n \<or> \<not> earlier"
    then have "\<not> Set_has (allNames before) n"
      using names assms(7) by (auto simp: Set_has_def)
    from verify_file_first [OF assms(4) this, of p]
    show "(\<exists>new. console (verify_file parse p content before) = console before @ new
                      \<and> \<not> list_ex is_duplicate_msg new)
                \<and> allNames (verify_file parse p content before) = allNames before @ [n]"
      by auto
  qed
  show ?thesis using run dup first by blast
qed

theorem duplicate_names_after_first_witness:
  "verify_agent_consistency sample_parse two_dirs two_files =
     two_files\<lparr>allNames := [JStr ''shared''],
               console := [ModelRecommended ''agents/a.md'', Consistent ''agents/a.md'',
                           DuplicateName ''skills/b.md'' (JStr ''shared'')],
               counter := 1\<rparr>
   \<and> DuplicateName ''skills/b.md'' (JStr ''shared'')
       \<in> set (console (verify_agent_consistency sample_parse two_dirs two_files))
   \<and> allNames (verify_file sample_parse [''agents'', ''a.md''] (md_file shared_first) two_files)
       = [JStr ''shared'']"
proof -
  have f: "fst (md_files two_dirs) = [[''agents'', ''a.md'']] @ [''skills'', ''b.md''] # []"
    by (simp add: two_dirs_files)
  have f0: "fst (md_files two_dirs) = [] @ [''agents'', ''a.md''] # [[''skills'', ''b.md'']]"
    by (simp add: two_dirs_files)
  have r: "\<forall>q \<in> set [[''agents'', ''a.md'']]. disk two_files q \<noteq> None"
    by (simp add: two_files_def)
  have r0: "\<forall>q \<in> set ([] :: path list). disk two_files q \<noteq> None" by simp
  have d: "disk two_files [''skills'', ''b.md''] = Some (md_file shared_second)"
    by (simp add: two_files_def)
  have d0: "disk two_files [''agents'', ''a.md''] = Some (md_file shared_first)"
    by (simp add: two_files_def)
  have e: "allNames two_files = []" by (simp add: two_files_def fresh_run_def)
  have earlier: "True \<longleftrightarrow> (\<exists>q \<in> set [[''agents'', ''a.md'']]. \<exists>c. disk two_files q = Some c
                   \<and> declared_name sample_parse c = Some (JStr ''shared''))"
    by (simp add: two_files_def shared_declared)
  have none: "False \<longleftrightarrow> (\<exists>q \<in> set ([] :: path list). \<exists>c. disk two_files q = Some c
                   \<and> declared_name sample_parse c = Some (JStr ''shared''))"
    by simp
  note t = duplicate_names_after_first [OF f r d shared_declared(2) e refl earlier]
  note t0 = duplicate_names_after_first [OF f0 r0 d0 shared_declared(1) e refl none]
  have step: "verify_file sample_parse [''skills'', ''b.md''] (md_file shared_second)
            (verify_files sample_parse [[''agents'', ''a.md'']] two_files)
          = (verify_files sample_parse [[''agents'', ''a.md'']] two_files)
              \<lparr>console := console (verify_files sample_parse [[''agents'', ''a.md'']] two_files)
                            @ [DuplicateName (relative [''skills'', ''b.md'']) (JStr ''shared'')],
               counter := counter (verify_files sample_parse [[''agents'', ''a.md'']] two_files) + 1\<rparr>"
    using t by simp
  have a: "verify_agent_consistency sample_parse two_dirs two_files =
     two_files\<lparr>allNames := [JStr ''shared''],
               console := [ModelRecommended ''agents/a.md'', Consistent ''agents/a.md'',
                           DuplicateName ''skills/b.md'' (JStr ''shared'')],
               counter := 1\<rparr>"
  proof -
    let ?S = "verify_files sample_parse [[''agents'', ''a.md'']] two_files"
    have "disk ?S [''skills'', ''b.md''] = Some (md_file shared_second)"
      by (simp only: verify_files_disk d)
    then have "verify_files sample_parse [[''skills'', ''b.md'']] ?S
               = verify_file sample_parse [''skills'', ''b.md''] (md_file shared_second) ?S"
      by (rule verify_files_single)
    then have "verify_files sample_parse ([[''agents'', ''a.md'']] @ [''skills'', ''b.md''] # []) two_files
        = verify_file sample_parse [''skills'', ''b.md''] (md_file shared_second) ?S"
      by (simp only: verify_files_append [OF r, of sample_parse "[[''skills'', ''b.md'']]"])
    also have "\<dots> = ?S\<lparr>console := console ?S
                            @ [DuplicateName (relative [''skills'', ''b.md'']) (JStr ''shared'')],
                         counter := counter ?S + 1\<rparr>"
      by (rule step)
    also have "\<dots> = two_files\<lparr>allNames := [JStr ''shared''],
               console := [ModelRecommended ''agents/a.md'', Consistent ''agents/a.md'',
                           DuplicateName ''skills/b.md'' (JStr ''shared'')],
               counter := 1\<rparr>"
      unfolding two_files_first by (simp add: two_files_def fresh_run_def)
    finally show ?thesis
      unfolding verify_agent_consistency_def two_dirs_files Let_def prod.case
      by (simp add: two_files_def fresh_run_def)
  qed
  have b: "DuplicateName ''skills/b.md'' (JStr ''shared'')
       \<in> set (console (verify_agent_consistency sample_parse two_dirs two_files))"
    using t by simp
  have c: "allNames (verify_file sample_parse [''agents'', ''a.md''] (md_file shared_first) two_files)
       = [JStr ''shared'']"
    using t0 e by simp
  show ?thesis using a b c by blast
qed

end
